theory Spec2Isabelle
  imports Complex_Main "HOL-Library.AList" "HOL-Library.Multiset"
begin

section \<open>The data of allocation.py\<close>

text \<open>
  A \<^verbatim>\<open>DataFrame\<close> of students: its column labels (unique) and its rows. A row
  carries the cells of the columns \<^verbatim>\<open>id\<close> and \<^verbatim>\<open>gpa\<close> (read only after the
  check that these columns exist) and the cells of the other columns by label; \<open>None\<close>
  is a missing cell (\<^verbatim>\<open>NaN\<close>, for which \<^verbatim>\<open>pd.notna\<close> is false). Every
  record has a score (\<^verbatim>\<open>load_student_csv\<close> rejects a score that is not a number);
  it is of any linearly ordered type.
\<close>

record 's student_row =
  row_id :: int
  row_gpa :: 's
  row_cells :: "string \<Rightarrow> string option"

record 's dataframe =
  columns :: "string list"
  rows :: "'s student_row list"

text \<open>One entry of the list \<^verbatim>\<open>allocation_steps\<close> returns.\<close>

record 's snapshot =
  student_id :: int
  gpa :: 's
  prefs :: "string list"
  chosen :: "string option"
  remaining :: "(string \<times> int) list"
  assignments :: "(int \<times> string option) list"

section \<open>Python values and library calls used by allocation.py\<close>

text \<open>
  The exceptions the modelled code can raise. \<open>ValueError\<close> is the explicit
  \<^verbatim>\<open>raise ValueError(...)\<close> of \<^verbatim>\<open>allocation_steps\<close>; \<open>KeyError\<close> is what
  \<^verbatim>\<open>caps[spec] -= 1\<close> raises on a missing key, \<open>IndexError\<close> what
  \<^verbatim>\<open>random.choice\<close> raises on an empty sequence or an index out of range, and
  \<open>OverflowError\<close> what float arithmetic raises on a result out of range.
\<close>

datatype error = ValueError | KeyError | IndexError | OverflowError

text \<open>
  A Python \<^verbatim>\<open>dict\<close> keeps its keys in insertion order and
  \<^verbatim>\<open>caps.items()\<close> iterates in that order, so a dict is an association list
  (its keys are distinct). \<^verbatim>\<open>d.get(k, default)\<close> and \<^verbatim>\<open>d[k] = v\<close> (an
  existing key keeps its place, a new key goes to the end) are:
\<close>

definition dict_get :: "('k \<times> 'v) list \<Rightarrow> 'k \<Rightarrow> 'v \<Rightarrow> 'v" where
  "dict_get d k dflt = (case map_of d k of None \<Rightarrow> dflt | Some v \<Rightarrow> v)"

definition dict_set :: "('k \<times> 'v) list \<Rightarrow> 'k \<Rightarrow> 'v \<Rightarrow> ('k \<times> 'v) list" where
  "dict_set d k v = AList.update k v d"

text \<open>
  The capacity dicts are mutable objects: the caller's \<^verbatim>\<open>capacity_dict\<close> and the
  working copy \<^verbatim>\<open>caps\<close> are two objects of one store, addressed by their position.
  An address refers to an object when it is below the length of the store, as every
  Python reference does. The process-wide generator of the \<^verbatim>\<open>random\<close> module is
  the other piece of state that outlives a call.
\<close>

type_synonym addr = nat

record 'g world =
  heap :: "(string \<times> int) list list"
  rng :: 'g

text \<open>
  Three library calls are parameters of the model. The generator (the Mersenne Twister of
  the standard library): \<open>seed_state s\<close> is the state after \<^verbatim>\<open>random.seed(s)\<close>, and
  \<open>randbelow g n\<close> is the draw of \<^verbatim>\<open>random._randbelow(n)\<close> in state \<open>g\<close> with
  the state after it. \<open>int_str s\<close> is \<^verbatim>\<open>int(s)\<close> on a string, \<open>None\<close> standing for
  its \<^verbatim>\<open>ValueError\<close>. \<open>sort_values rs\<close> is what \<^verbatim>\<open>df.sort_values\<close> of pandas,
  by the column \<^verbatim>\<open>gpa\<close> and with \<^verbatim>\<open>ascending=False\<close>, makes of the rows
  \<open>rs\<close>; it sorts with the default kind, quicksort, which promises no order among rows of
  equal score.

  Two contracts: a draw below a positive \<open>n\<close> is less than \<open>n\<close>; and the sorted rows
  are the given rows in some order in which the scores never increase.
\<close>

record ('g, 's) library =
  seed_state :: "int \<Rightarrow> 'g"
  randbelow :: "'g \<Rightarrow> nat \<Rightarrow> nat \<times> 'g"
  int_str :: "string \<Rightarrow> int option"
  sort_values :: "'s student_row list \<Rightarrow> 's student_row list"

definition rng_ok :: "('g, 's) library \<Rightarrow> bool" where
  "rng_ok R = (\<forall>g n. 0 < n \<longrightarrow> fst (randbelow R g n) < n)"

definition sort_ok :: "('g, 's::linorder) library \<Rightarrow> bool" where
  "sort_ok R =
     (\<forall>rs. mset (sort_values R rs) = mset rs
         \<and> sorted_wrt (\<lambda>a b. row_gpa b \<le> row_gpa a) (sort_values R rs))"

text \<open>A call either raises, or returns a value; both leave a world behind.\<close>

datatype ('a, 'g) result = Raise error "'g world" | Return 'a "'g world"

text \<open>\<^verbatim>\<open>d.copy()\<close> allocates a new object holding the same items.\<close>

definition dict_copy :: "addr \<Rightarrow> 'g world \<Rightarrow> addr \<times> 'g world" where
  "dict_copy a w = (length (heap w), w\<lparr>heap := heap w @ [heap w ! a]\<rparr>)"

text \<open>\<^verbatim>\<open>d[k] -= 1\<close> on the object at address \<open>a\<close>: reads \<^verbatim>\<open>d[k]\<close> (a
  \<^verbatim>\<open>KeyError\<close> when the key is missing) and stores the difference in place.\<close>

definition dict_isub1 :: "addr \<Rightarrow> string \<Rightarrow> 'g world \<Rightarrow> (unit, 'g) result" where
  "dict_isub1 a k w =
     (case map_of (heap w ! a) k of
        None \<Rightarrow> Raise KeyError w
      | Some v \<Rightarrow> Return () (w\<lparr>heap := (heap w)[a := dict_set (heap w ! a) k (v - 1)]\<rparr>))"

text \<open>\<^verbatim>\<open>random.choice(seq)\<close>: \<^verbatim>\<open>seq[self._randbelow(len(seq))]\<close>, an
  \<^verbatim>\<open>IndexError\<close> on an empty sequence.\<close>

definition choice :: "('g, 's) library \<Rightarrow> 'a list \<Rightarrow> 'g world \<Rightarrow> ('a, 'g) result" where
  "choice R xs w =
     (if xs = [] then Raise IndexError w
      else (case randbelow R (rng w) (length xs) of
              (i, g') \<Rightarrow>
                if i < length xs then Return (xs ! i) (w\<lparr>rng := g'\<rparr>)
                else Raise IndexError (w\<lparr>rng := g'\<rparr>)))"

text \<open>\<^verbatim>\<open>xs[:n]\<close>: a negative \<open>n\<close> counts from the end.\<close>

definition slice_to :: "int \<Rightarrow> 'a list \<Rightarrow> 'a list" where
  "slice_to n xs = (if 0 \<le> n then take (nat n) xs else take (length xs - nat (- n)) xs)"

section \<open>allocation.py\<close>

text \<open>\<^verbatim>\<open>_pref_index\<close>: the number after the four characters of \<^verbatim>\<open>pref\<close>, and 999
  when \<^verbatim>\<open>int\<close> raises.\<close>

definition pref_index :: "('g, 's) library \<Rightarrow> string \<Rightarrow> int" where
  "pref_index R col_name = (case int_str R (drop 4 col_name) of Some n \<Rightarrow> n | None \<Rightarrow> 999)"

text \<open>Lines 231-232: the preference columns, ordered by their number (Python's
  \<^verbatim>\<open>sorted\<close> is stable), at most \<^verbatim>\<open>max_prefs\<close> of them.\<close>

definition pref_cols :: "('g, 's) library \<Rightarrow> string list \<Rightarrow> int \<Rightarrow> string list" where
  "pref_cols R cols max_prefs =
     slice_to max_prefs (sort_key (pref_index R) (filter (\<lambda>c. take 4 c = ''pref'') cols))"

text \<open>Line 238: the preferences a student declared, in column order.\<close>

definition row_prefs :: "string list \<Rightarrow> 's student_row \<Rightarrow> string list" where
  "row_prefs pcs r = List.map_filter (row_cells r) pcs"

text \<open>Lines 243-247: the first preferred specialisation with a free seat takes the
  student; the loop stops there.\<close>

fun first_fit :: "addr \<Rightarrow> string list \<Rightarrow> 'g world \<Rightarrow> (string option, 'g) result" where
  "first_fit caps [] w = Return None w"
| "first_fit caps (spec # rest) w =
     (if dict_get (heap w ! caps) spec 0 > 0 then
        (case dict_isub1 caps spec w of
           Raise e w' \<Rightarrow> Raise e w'
         | Return u w' \<Rightarrow> Return (Some spec) w')
      else first_fit caps rest w)"

text \<open>Lines 252-255: the specialisations with a free seat that the student did not
  list, in the order of the dict.\<close>

definition available_specs :: "(string \<times> int) list \<Rightarrow> string list \<Rightarrow> string list" where
  "available_specs d ps = map fst (filter (\<lambda>(spec, rem). rem > 0 \<and> spec \<notin> set ps) d)"

text \<open>Lines 256-258: a random one of them, if there is any.\<close>

definition fallback ::
  "('g, 's) library \<Rightarrow> addr \<Rightarrow> string list \<Rightarrow> 'g world \<Rightarrow> (string option, 'g) result" where
  "fallback R caps ps w =
     (let av = available_specs (heap w ! caps) ps in
      if av \<noteq> [] then
        (case choice R av w of
           Raise e w' \<Rightarrow> Raise e w'
         | Return c w' \<Rightarrow>
             (case dict_isub1 caps c w' of
                Raise e w'' \<Rightarrow> Raise e w''
              | Return u w'' \<Rightarrow> Return (Some c) w''))
      else Return None w)"

text \<open>Lines 235-270, the body of the loop for one row: \<open>asg\<close> and \<open>snaps\<close> are the
  local \<^verbatim>\<open>assignments\<close> and \<^verbatim>\<open>snapshots\<close>; the snapshot holds copies of
  \<^verbatim>\<open>caps\<close> and \<^verbatim>\<open>assignments\<close>, which nothing else refers to: they are values.\<close>

definition process_row ::
  "('g, 's) library \<Rightarrow> addr \<Rightarrow> bool \<Rightarrow> string list \<Rightarrow> 's student_row \<Rightarrow>
   (int \<times> string option) list \<times> 's snapshot list \<Rightarrow> 'g world \<Rightarrow>
   ((int \<times> string option) list \<times> 's snapshot list, 'g) result" where
  "process_row R caps random_fallback pcs r st w =
     (let ps = row_prefs pcs r in
      case first_fit caps ps w of
        Raise e w1 \<Rightarrow> Raise e w1
      | Return c1 w1 \<Rightarrow>
          (case (if c1 = None \<and> random_fallback then fallback R caps ps w1
                 else Return c1 w1) of
             Raise e w2 \<Rightarrow> Raise e w2
           | Return c w2 \<Rightarrow>
               (let asg = dict_set (fst st) (row_id r) c;
                    snap = \<lparr>student_id = row_id r, gpa = row_gpa r, prefs = ps, chosen = c,
                            remaining = heap w2 ! caps, assignments = asg\<rparr>
                in Return (asg, snd st @ [snap]) w2)))"

text \<open>Line 234: the loop over the sorted rows.\<close>

fun for_rows ::
  "('g, 's) library \<Rightarrow> addr \<Rightarrow> bool \<Rightarrow> string list \<Rightarrow> 's student_row list \<Rightarrow>
   (int \<times> string option) list \<times> 's snapshot list \<Rightarrow> 'g world \<Rightarrow>
   ((int \<times> string option) list \<times> 's snapshot list, 'g) result" where
  "for_rows R caps random_fallback pcs [] st w = Return st w"
| "for_rows R caps random_fallback pcs (r # rs) st w =
     (case process_row R caps random_fallback pcs r st w of
        Raise e w' \<Rightarrow> Raise e w'
      | Return st' w' \<Rightarrow> for_rows R caps random_fallback pcs rs st' w')"

text \<open>\<^verbatim>\<open>allocation_steps(df, capacity_dict, max_prefs, random_fallback, seed)\<close>, run
  in the world \<open>w\<close>; \<open>capacity_dict\<close> is the address of the caller's dict.\<close>

definition allocation_steps ::
  "('g, 's) library \<Rightarrow> ('s::linorder) dataframe \<Rightarrow> addr \<Rightarrow> int \<Rightarrow> bool \<Rightarrow> int option \<Rightarrow>
   'g world \<Rightarrow> ('s snapshot list, 'g) result" where
  "allocation_steps R df capacity_dict max_prefs random_fallback seed w =
     (let w0 = (case seed of None \<Rightarrow> w | Some s \<Rightarrow> w\<lparr>rng := seed_state R s\<rparr>) in
      if ''id'' \<notin> set (columns df) \<or> ''gpa'' \<notin> set (columns df) then Raise ValueError w0
      else
        (let df_sorted = sort_values R (rows df) in
         case dict_copy capacity_dict w0 of
           (caps, w1) \<Rightarrow>
             (case for_rows R caps random_fallback (pref_cols R (columns df) max_prefs)
                     df_sorted ([], []) w1 of
                Raise e w' \<Rightarrow> Raise e w'
              | Return st w' \<Rightarrow> Return (snd st) w')))"

section \<open>The score part of generate_random_students\<close>

text \<open>
  Lines 31-116 of allocation.py, as far as they produce the scores. Python floats are
  idealised as real numbers (there is no infinity and no NaN); \<^verbatim>\<open>round(x, ndigits)\<close>
  is a parameter \<open>rnd\<close> of the model, so that nothing proved below depends on how a
  float is rounded. The generator is again a parameter: \<open>uniform\<close> is
  \<^verbatim>\<open>random.uniform\<close>, \<open>random_float\<close> is \<^verbatim>\<open>random.random\<close> and \<open>choices_draw\<close> is
  the selection \<^verbatim>\<open>random.choices\<close> makes once it has accepted its arguments. So is
  the float arithmetic of lines 58-60, where \<^verbatim>\<open>** 2\<close> raises an
  \<^verbatim>\<open>OverflowError\<close> when the square leaves the range of a float and
  \<^verbatim>\<open>math.exp\<close> underflows to \<^verbatim>\<open>0.0\<close> far from the mean: \<open>density x mu sigma\<close> is
  what these lines compute for a positive \<open>sigma\<close>, an exception or a number.
\<close>

record 'g sampler_lib =
  seed_sampler :: "int \<Rightarrow> 'g"
  uniform :: "'g \<Rightarrow> real \<Rightarrow> real \<Rightarrow> real \<times> 'g"
  random_float :: "'g \<Rightarrow> real \<times> 'g"
  choices_draw :: "'g \<Rightarrow> real list \<Rightarrow> real list \<Rightarrow> nat \<Rightarrow> real list \<times> 'g"
  density :: "real \<Rightarrow> real \<Rightarrow> real \<Rightarrow> error + real"

text \<open>The contract of \<^verbatim>\<open>random.choices\<close>: what it draws are \<open>k\<close> members of the
  population.\<close>

definition choices_ok :: "'g sampler_lib \<Rightarrow> bool" where
  "choices_ok L =
     (\<forall>g population weights k.
         set (fst (choices_draw L g population weights k)) \<subseteq> set population
       \<and> length (fst (choices_draw L g population weights k)) = k)"

text \<open>
  \<^verbatim>\<open>random.choices(population, weights=weights, k=k)\<close>: a \<^verbatim>\<open>ValueError\<close> when the
  number of weights differs from the size of the population or when the weights do not
  sum to more than zero, an \<^verbatim>\<open>IndexError\<close> when both are empty.
\<close>

definition choices ::
  "'g sampler_lib \<Rightarrow> real list \<Rightarrow> real list \<Rightarrow> nat \<Rightarrow> 'g \<Rightarrow> (error + real list) \<times> 'g" where
  "choices L population weights k g =
     (if length weights \<noteq> length population then (Inl ValueError, g)
      else if population = [] then (Inl IndexError, g)
      else if sum_list weights \<le> 0 then (Inl ValueError, g)
      else (case choices_draw L g population weights k of (xs, g') \<Rightarrow> (Inr xs, g')))"

text \<open>\<^verbatim>\<open>xs.pop(i)\<close>: the element and the list without it; a negative index
  counts from the end and an index out of range is an \<^verbatim>\<open>IndexError\<close> (\<open>None\<close>).\<close>

definition list_pop :: "'a list \<Rightarrow> int \<Rightarrow> ('a \<times> 'a list) option" where
  "list_pop xs i =
     (let n = int (length xs); j = (if i < 0 then i + n else i)
      in if 0 \<le> j \<and> j < n then Some (xs ! nat j, take (nat j) xs @ drop (Suc (nat j)) xs)
         else None)"

text \<open>Lines 39-44: the 64 levels, rounded to 6 decimals, and of those the ones in
  the requested range.\<close>

definition allowed_gpas :: "(real \<Rightarrow> nat \<Rightarrow> real) \<Rightarrow> real \<Rightarrow> real \<Rightarrow> real list" where
  "allowed_gpas rnd gpa_min gpa_max =
     (let step = (gpa_max - gpa_min) / 63 in
      filter (\<lambda>g. gpa_min \<le> g \<and> g \<le> gpa_max)
        (map (\<lambda>i. rnd (gpa_min + real i * step) 6) [0..<64]))"

text \<open>Lines 55-60.\<close>

definition normal_pdf :: "'g sampler_lib \<Rightarrow> real \<Rightarrow> real \<Rightarrow> real \<Rightarrow> error + real" where
  "normal_pdf L x mu sigma = (if sigma \<le> 0 then Inr 0 else density L x mu sigma)"

text \<open>Line 62: the density at every level, up to the first level where it raises.\<close>

fun level_weights :: "'g sampler_lib \<Rightarrow> real list \<Rightarrow> real \<Rightarrow> real \<Rightarrow> error + real list" where
  "level_weights L [] mean std = Inr []"
| "level_weights L (g # gs) mean std =
     (case normal_pdf L g mean std of
        Inl e \<Rightarrow> Inl e
      | Inr p \<Rightarrow>
          (case level_weights L gs mean std of
             Inl e \<Rightarrow> Inl e
           | Inr ps \<Rightarrow> Inr (p # ps)))"

text \<open>Lines 63-70: the normalised weights, uniform when the density sums to zero or
  less.\<close>

definition probs_of :: "real list \<Rightarrow> real list" where
  "probs_of weights =
     (let total_w = sum_list weights
      in if total_w \<le> 0
         then (let ones = map (\<lambda>_. 1) weights in map (\<lambda>w. w / sum_list ones) ones)
         else map (\<lambda>w. w / total_w) weights)"

definition level_probs :: "'g sampler_lib \<Rightarrow> real list \<Rightarrow> real \<Rightarrow> real \<Rightarrow> error + real list" where
  "level_probs L gs mean std =
     (case level_weights L gs mean std of
        Inl e \<Rightarrow> Inl e
      | Inr weights \<Rightarrow> Inr (probs_of weights))"

text \<open>Line 74: \<open>k\<close> draws from the continuous range, each rounded to 3 decimals.\<close>

fun uniforms ::
  "'g sampler_lib \<Rightarrow> (real \<Rightarrow> nat \<Rightarrow> real) \<Rightarrow> nat \<Rightarrow> real \<Rightarrow> real \<Rightarrow> 'g \<Rightarrow> real list \<times> 'g" where
  "uniforms L rnd 0 a b g = ([], g)"
| "uniforms L rnd (Suc k) a b g =
     (case uniform L g a b of
        (u, g1) \<Rightarrow> (case uniforms L rnd k a b g1 of (us, g2) \<Rightarrow> (rnd u 3 # us, g2)))"

text \<open>Lines 92-99, \<^verbatim>\<open>weighted_pop\<close>, for the draw \<open>r\<close> of
  \<^verbatim>\<open>random.random()\<close>: the first index whose cumulative weight reaches \<open>r\<close>, and the
  last index when there is none.\<close>

fun weighted_scan :: "int \<Rightarrow> real \<Rightarrow> real list \<Rightarrow> real \<Rightarrow> int option" where
  "weighted_scan idx cum [] r = None"
| "weighted_scan idx cum (p # ps) r =
     (if r \<le> cum + p then Some idx else weighted_scan (idx + 1) (cum + p) ps r)"

definition weighted_pop :: "real list \<Rightarrow> real \<Rightarrow> int" where
  "weighted_pop probs_list r =
     (case weighted_scan 0 0 probs_list r of
        Some idx \<Rightarrow> idx
      | None \<Rightarrow> int (length probs_list) - 1)"

text \<open>Lines 102-108: \<open>m\<close> rounds of drawing without replacement.\<close>

fun pop_loop ::
  "'g sampler_lib \<Rightarrow> nat \<Rightarrow> real list \<Rightarrow> real list \<Rightarrow> real list \<Rightarrow> 'g \<Rightarrow> (error + real list) \<times> 'g" where
  "pop_loop L 0 cs cps gpas g = (Inr gpas, g)"
| "pop_loop L (Suc m) cs cps gpas g =
     (case random_float L g of
        (r, g1) \<Rightarrow>
          (case list_pop cs (weighted_pop cps r) of
             None \<Rightarrow> (Inl IndexError, g1)
           | Some (x, cs') \<Rightarrow>
               (case list_pop cps (weighted_pop cps r) of
                  None \<Rightarrow> (Inl IndexError, g1)
                | Some (p, cps') \<Rightarrow>
                    pop_loop L m cs'
                      (if sum_list cps' > 0 then map (\<lambda>q. q / sum_list cps') cps' else cps')
                      (gpas @ [x]) g1)))"

text \<open>Lines 31-112 of \<^verbatim>\<open>generate_random_students\<close>: the list \<^verbatim>\<open>gpas\<close>, or the
  exception raised on the way.\<close>

definition generate_gpas ::
  "'g sampler_lib \<Rightarrow> (real \<Rightarrow> nat \<Rightarrow> real) \<Rightarrow> nat \<Rightarrow> real \<Rightarrow> real \<Rightarrow> int option \<Rightarrow>
   real option \<Rightarrow> real option \<Rightarrow> bool \<Rightarrow> 'g \<Rightarrow> (error + real list) \<times> 'g" where
  "generate_gpas L rnd n_students gpa_min gpa_max seed mean std sampling_with_replacement g =
     (let g0 = (case seed of None \<Rightarrow> g | Some s \<Rightarrow> seed_sampler L s);
          grid = allowed_gpas rnd gpa_min gpa_max;
          mean' = (case mean of None \<Rightarrow> (gpa_min + gpa_max) / 2 | Some m \<Rightarrow> m);
          std' = (case std of None \<Rightarrow> (gpa_max - gpa_min) / 6 | Some s \<Rightarrow> s)
      in case level_probs L grid mean' std' of
           Inl e \<Rightarrow> (Inl e, g0)
         | Inr probs \<Rightarrow>
            (case (if grid = [] then uniforms L rnd (max 1 n_students) gpa_min gpa_max g0
                   else (grid, g0)) of
               (population, g1) \<Rightarrow>
                 if sampling_with_replacement then choices L population probs n_students g1
                 else
                   (case pop_loop L (min n_students (length population)) population probs [] g1 of
                      (Inl e, g2) \<Rightarrow> (Inl e, g2)
                    | (Inr gpas, g2) \<Rightarrow>
                        if length gpas < n_students then
                          (case choices L population probs (n_students - length gpas) g2 of
                             (Inl e, g3) \<Rightarrow> (Inl e, g3)
                           | (Inr extras, g3) \<Rightarrow> (Inr (gpas @ extras), g3))
                        else (Inr gpas, g2))))"

text \<open>
  Lines 114-116: the score stored for student \<open>i\<close> is \<^verbatim>\<open>round(gpas[i], 3)\<close>, an
  \<^verbatim>\<open>IndexError\<close> when \<^verbatim>\<open>gpas\<close> is shorter than \<^verbatim>\<open>n_students\<close>. The list
  \<^verbatim>\<open>gpas\<close> is complete before the first preference list is drawn, so the scores do
  not depend on the rest of the loop; these are the values of the column
  \<^verbatim>\<open>gpa\<close> when the function returns, in the order of generation.
\<close>

definition generate_scores ::
  "'g sampler_lib \<Rightarrow> (real \<Rightarrow> nat \<Rightarrow> real) \<Rightarrow> nat \<Rightarrow> real \<Rightarrow> real \<Rightarrow> int option \<Rightarrow>
   real option \<Rightarrow> real option \<Rightarrow> bool \<Rightarrow> 'g \<Rightarrow> error + real list" where
  "generate_scores L rnd n_students gpa_min gpa_max seed mean std sampling_with_replacement g =
     (case fst (generate_gpas L rnd n_students gpa_min gpa_max seed mean std
                  sampling_with_replacement g) of
        Inl e \<Rightarrow> Inl e
      | Inr gpas \<Rightarrow>
          if length gpas < n_students then Inl IndexError
          else Inr (map (\<lambda>x. rnd x 3) (take n_students gpas)))"

text \<open>
  tests/test_grid_alignment.py, lines 31-32: the set in which the test expects every
  generated score, the 64 levels rounded to 3 decimals.
\<close>

definition test_grid :: "(real \<Rightarrow> nat \<Rightarrow> real) \<Rightarrow> real \<Rightarrow> real \<Rightarrow> real list" where
  "test_grid rnd gpa_min gpa_max =
     (let step = (gpa_max - gpa_min) / 63 in map (\<lambda>i. rnd (gpa_min + real i * step) 3) [0..<64])"

text \<open>
  For the worked examples: rounding of an exact number to \<open>n\<close> decimals, ties to the even
  digit, a small generator, and the Gaussian density in exact arithmetic.
\<close>

definition decimal_round :: "real \<Rightarrow> nat \<Rightarrow> real" where
  "decimal_round x n =
     (let y = x * 10 ^ n; f = \<lfloor>y\<rfloor>; d = y - of_int f
      in (if d < 1 / 2 then of_int f
          else if 1 / 2 < d then of_int (f + 1)
          else if even f then of_int f else of_int (f + 1)) / 10 ^ n)"

definition lcg_sampler :: "nat sampler_lib" where
  "lcg_sampler =
     \<lparr>seed_sampler = (\<lambda>s. nat \<bar>s\<bar>),
      uniform = (\<lambda>g a b. (a + (b - a) * real (g mod 1000) / 1000,
                           (1103515245 * g + 12345) mod 2147483648)),
      random_float = (\<lambda>g. (real (g mod 1000) / 1000, (1103515245 * g + 12345) mod 2147483648)),
      choices_draw = (\<lambda>g population weights k.
                        (replicate k (population ! (g mod length population)),
                         (1103515245 * g + 12345) mod 2147483648)),
      density = (\<lambda>x mu sigma.
                   Inr ((1 / (sigma * sqrt (2 * pi))) * exp (- (1 / 2) * ((x - mu) / sigma) ^ 2)))\<rparr>"

section \<open>The run as a function of values\<close>

text \<open>
  The loop reads and writes one object of the store. Its effect on that object, on the
  generator and on the two local variables is stated here on values; the lemmas below
  show that \<open>for_rows\<close> computes exactly this when the generator keeps its contract.
  \<open>decr d c\<close> is the dict after \<^verbatim>\<open>d[c] -= 1\<close>.
\<close>

definition decr :: "(string \<times> int) list \<Rightarrow> string \<Rightarrow> (string \<times> int) list" where
  "decr d c = dict_set d c (dict_get d c 0 - 1)"

definition step ::
  "('g, 's) library \<Rightarrow> bool \<Rightarrow> string list \<Rightarrow> (string \<times> int) list \<Rightarrow> 'g \<Rightarrow>
   string option \<times> (string \<times> int) list \<times> 'g" where
  "step R fb ps d g =
     (case find (\<lambda>p. 0 < dict_get d p 0) ps of
        Some c \<Rightarrow> (Some c, decr d c, g)
      | None \<Rightarrow>
          if fb \<and> available_specs d ps \<noteq> [] then
            (case randbelow R g (length (available_specs d ps)) of
               (i, g') \<Rightarrow>
                 (Some (available_specs d ps ! i), decr d (available_specs d ps ! i), g'))
          else (None, d, g))"

fun trace ::
  "('g, 's) library \<Rightarrow> bool \<Rightarrow> string list \<Rightarrow> 's student_row list \<Rightarrow>
   (string \<times> int) list \<Rightarrow> 'g \<Rightarrow> (int \<times> string option) list \<Rightarrow> 's snapshot list" where
  "trace R fb pcs [] d g asg = []"
| "trace R fb pcs (r # rs) d g asg =
     (case step R fb (row_prefs pcs r) d g of
        (c, d', g') \<Rightarrow>
          \<lparr>student_id = row_id r, gpa = row_gpa r, prefs = row_prefs pcs r, chosen = c,
           remaining = d', assignments = dict_set asg (row_id r) c\<rparr>
          # trace R fb pcs rs d' g' (dict_set asg (row_id r) c))"

fun after_rows ::
  "('g, 's) library \<Rightarrow> bool \<Rightarrow> string list \<Rightarrow> 's student_row list \<Rightarrow>
   (string \<times> int) list \<Rightarrow> 'g \<Rightarrow> (int \<times> string option) list \<Rightarrow>
   (string \<times> int) list \<times> 'g \<times> (int \<times> string option) list" where
  "after_rows R fb pcs [] d g asg = (d, g, asg)"
| "after_rows R fb pcs (r # rs) d g asg =
     (case step R fb (row_prefs pcs r) d g of
        (c, d', g') \<Rightarrow> after_rows R fb pcs rs d' g' (dict_set asg (row_id r) c))"

text \<open>
  What the caller of a function sees, and the world it is left with. The capacities a
  step starts from are those of the caller's dict for the first student and those the
  previous snapshot recorded for every later one.
\<close>

definition returned :: "('a, 'g) result \<Rightarrow> error + 'a" where
  "returned r = (case r of Raise e w \<Rightarrow> Inl e | Return x w \<Rightarrow> Inr x)"

definition world_of :: "('a, 'g) result \<Rightarrow> 'g world" where
  "world_of r = (case r of Raise e w \<Rightarrow> w | Return x w \<Rightarrow> w)"

definition caps_before ::
  "(string \<times> int) list \<Rightarrow> 's snapshot list \<Rightarrow> nat \<Rightarrow> (string \<times> int) list" where
  "caps_before init snaps k = (if k = 0 then init else remaining (snaps ! (k - 1)))"

text \<open>The number of students a final assignment map gives to a specialisation.\<close>

definition assigned_count :: "(int \<times> string option) list \<Rightarrow> string \<Rightarrow> nat" where
  "assigned_count asg c = length (filter (\<lambda>(i, a). a = Some c) asg)"

text \<open>Two worlds that hold objects at the same addresses and differ at most in the
  object at address \<open>a\<close>.\<close>

definition frame :: "addr \<Rightarrow> 'g world \<Rightarrow> 'g world \<Rightarrow> bool" where
  "frame a w w' = (length (heap w') = length (heap w) \<and> (\<forall>b. b \<noteq> a \<longrightarrow> heap w' ! b = heap w ! b))"

section \<open>Inputs of the worked examples\<close>

text \<open>
  The library of the examples: a small linear congruential generator stands in for the
  Mersenne Twister; \<open>digits_int\<close> reads a string of decimal digits, which is what
  \<^verbatim>\<open>int\<close> does on the column suffixes of the examples (\<^verbatim>\<open>1\<close>, \<^verbatim>\<open>2\<close>);
  \<open>sort_desc_stable\<close> is one sort that keeps the contract, and the scores within each
  population of the examples are pairwise different, so that every sort that keeps the
  contract returns the same rows. The first two populations are those of
  tests/test_allocation.py, the third is the first with its rows in the opposite order,
  the fourth has two records with one id, in the fifth a student lists a specialisation
  that has no capacity entry, the sixth has no \<^verbatim>\<open>gpa\<close> column.
\<close>

definition is_digit :: "char \<Rightarrow> bool" where
  "is_digit c = (c \<in> set ''0123456789'')"

definition digit_val :: "char \<Rightarrow> nat" where
  "digit_val c = of_char c - 48"

definition digits_int :: "string \<Rightarrow> int option" where
  "digits_int s =
     (if s \<noteq> [] \<and> list_all is_digit s
      then Some (int (foldl (\<lambda>acc c. 10 * acc + digit_val c) 0 s)) else None)"

definition sort_desc_stable :: "('s::linorder) student_row list \<Rightarrow> 's student_row list" where
  "sort_desc_stable rs = rev (sort_key row_gpa (rev rs))"

definition lcg :: "(nat, real) library" where
  "lcg = \<lparr>seed_state = (\<lambda>s. nat \<bar>s\<bar>),
          randbelow = (\<lambda>g n. (g mod n, (1103515245 * g + 12345) mod 2147483648)),
          int_str = digits_int,
          sort_values = sort_desc_stable\<rparr>"

definition mk_row :: "int \<Rightarrow> 's \<Rightarrow> (string \<times> string) list \<Rightarrow> 's student_row" where
  "mk_row i s cells = \<lparr>row_id = i, row_gpa = s, row_cells = map_of cells\<rparr>"

definition df_priority :: "real dataframe" where
  "df_priority =
     \<lparr>columns = [''id'', ''gpa'', ''pref1'', ''pref2''],
      rows = [mk_row 1 9 [(''pref1'', ''Software''), (''pref2'', ''Mechanical'')],
              mk_row 2 8 [(''pref1'', ''Software''), (''pref2'', ''Mechanical'')]]\<rparr>"

definition df_priority_reversed :: "real dataframe" where
  "df_priority_reversed =
     \<lparr>columns = [''id'', ''gpa'', ''pref1'', ''pref2''],
      rows = [mk_row 2 8 [(''pref1'', ''Software''), (''pref2'', ''Mechanical'')],
              mk_row 1 9 [(''pref1'', ''Software''), (''pref2'', ''Mechanical'')]]\<rparr>"

definition world_priority :: "nat world" where
  "world_priority = \<lparr>heap = [[(''Software'', 1), (''Mechanical'', 1)]], rng = 7\<rparr>"

definition df_fallback :: "real dataframe" where
  "df_fallback =
     \<lparr>columns = [''id'', ''gpa'', ''pref1'', ''pref2''],
      rows = [mk_row 1 9 [(''pref1'', ''Software''), (''pref2'', ''Mechanical'')],
              mk_row 2 (17 / 2) [(''pref1'', ''Software''), (''pref2'', ''Mechanical'')],
              mk_row 3 7 [(''pref1'', ''Software''), (''pref2'', ''Mechanical'')]]\<rparr>"

definition world_fallback :: "nat world" where
  "world_fallback =
     \<lparr>heap = [[(''Software'', 1), (''Mechanical'', 1), (''Engineering Science'', 1)]],
      rng = 7\<rparr>"

definition df_same_id :: "real dataframe" where
  "df_same_id =
     \<lparr>columns = [''id'', ''gpa'', ''pref1''],
      rows = [mk_row 1 9 [(''pref1'', ''Software'')],
              mk_row 1 8 [(''pref1'', ''Software'')]]\<rparr>"

definition world_same_id :: "nat world" where
  "world_same_id = \<lparr>heap = [[(''Software'', 1)]], rng = 7\<rparr>"

definition df_unknown_pref :: "real dataframe" where
  "df_unknown_pref =
     \<lparr>columns = [''id'', ''gpa'', ''pref1'', ''pref2''],
      rows = [mk_row 1 9 [(''pref1'', ''Astrology''), (''pref2'', ''Software'')]]\<rparr>"

definition df_no_gpa :: "real dataframe" where
  "df_no_gpa =
     \<lparr>columns = [''id'', ''pref1''],
      rows = [mk_row 1 0 [(''pref1'', ''Software'')]]\<rparr>"

text \<open>
  A second world for the fallback population, with the capacities at another address and
  another generator state, and the snapshots the example runs return.
\<close>

definition world_fallback_other :: "nat world" where
  "world_fallback_other =
     \<lparr>heap = [[], [(''Software'', 1), (''Mechanical'', 1), (''Engineering Science'', 1)]],
      rng = 99\<rparr>"

definition snaps_priority :: "real snapshot list" where
  "snaps_priority =
     [\<lparr>student_id = 1, gpa = 9, prefs = [''Software'', ''Mechanical''],
       chosen = Some ''Software'',
       remaining = [(''Software'', 0), (''Mechanical'', 1)],
       assignments = [(1, Some ''Software'')]\<rparr>,
      \<lparr>student_id = 2, gpa = 8, prefs = [''Software'', ''Mechanical''],
       chosen = Some ''Mechanical'',
       remaining = [(''Software'', 0), (''Mechanical'', 0)],
       assignments = [(1, Some ''Software''), (2, Some ''Mechanical'')]\<rparr>]"

definition snaps_fallback :: "real snapshot list" where
  "snaps_fallback =
     [\<lparr>student_id = 1, gpa = 9, prefs = [''Software'', ''Mechanical''],
       chosen = Some ''Software'',
       remaining = [(''Software'', 0), (''Mechanical'', 1), (''Engineering Science'', 1)],
       assignments = [(1, Some ''Software'')]\<rparr>,
      \<lparr>student_id = 2, gpa = 17 / 2, prefs = [''Software'', ''Mechanical''],
       chosen = Some ''Mechanical'',
       remaining = [(''Software'', 0), (''Mechanical'', 0), (''Engineering Science'', 1)],
       assignments = [(1, Some ''Software''), (2, Some ''Mechanical'')]\<rparr>,
      \<lparr>student_id = 3, gpa = 7, prefs = [''Software'', ''Mechanical''],
       chosen = Some ''Engineering Science'',
       remaining = [(''Software'', 0), (''Mechanical'', 0), (''Engineering Science'', 0)],
       assignments = [(1, Some ''Software''), (2, Some ''Mechanical''),
                      (3, Some ''Engineering Science'')]\<rparr>]"

definition snaps_unknown_pref :: "real snapshot list" where
  "snaps_unknown_pref =
     [\<lparr>student_id = 1, gpa = 9, prefs = [''Astrology'', ''Software''],
       chosen = Some ''Software'', remaining = [(''Software'', 0)],
       assignments = [(1, Some ''Software'')]\<rparr>]"

definition snaps_same_id :: "real snapshot list" where
  "snaps_same_id =
     [\<lparr>student_id = 1, gpa = 9, prefs = [''Software''], chosen = Some ''Software'',
       remaining = [(''Software'', 0)], assignments = [(1, Some ''Software'')]\<rparr>,
      \<lparr>student_id = 1, gpa = 8, prefs = [''Software''], chosen = None,
       remaining = [(''Software'', 0)], assignments = [(1, None)]\<rparr>]"

section \<open>The loop computes the run on values\<close>

lemma first_fit_eq:
  "first_fit a ps w =
     (case find (\<lambda>p. 0 < dict_get (heap w ! a) p 0) ps of
        None \<Rightarrow> Return None w
      | Some c \<Rightarrow> Return (Some c) (w\<lparr>heap := (heap w)[a := decr (heap w ! a) c]\<rparr>))"
  by (induction ps) (auto simp: dict_isub1_def dict_get_def decr_def split: option.splits)

lemma available_specs_keys: "c \<in> set (available_specs d ps) \<Longrightarrow> \<exists>v. map_of d c = Some v"
  by (auto simp: available_specs_def dest!: weak_map_of_SomeI)

lemma dict_isub1_present:
  "map_of (heap w ! a) c = Some v \<Longrightarrow>
   dict_isub1 a c w = Return () (w\<lparr>heap := (heap w)[a := decr (heap w ! a) c]\<rparr>)"
  by (simp add: dict_isub1_def decr_def dict_get_def)

lemma fallback_eq:
  assumes "rng_ok R"
  shows "fallback R a ps w =
     (if available_specs (heap w ! a) ps = [] then Return None w
      else (case randbelow R (rng w) (length (available_specs (heap w ! a) ps)) of
              (i, g') \<Rightarrow> Return (Some (available_specs (heap w ! a) ps ! i))
                 (w\<lparr>heap := (heap w)[a := decr (heap w ! a) (available_specs (heap w ! a) ps ! i)],
                    rng := g'\<rparr>)))"
proof (cases "available_specs (heap w ! a) ps = []")
  case True
  then show ?thesis by (simp add: fallback_def)
next
  case False
  obtain i g' where draw:
    "randbelow R (rng w) (length (available_specs (heap w ! a) ps)) = (i, g')"
    by (cases "randbelow R (rng w) (length (available_specs (heap w ! a) ps))")
  from assms False
  have "fst (randbelow R (rng w) (length (available_specs (heap w ! a) ps)))
          < length (available_specs (heap w ! a) ps)"
    by (simp add: rng_ok_def)
  with draw have i: "i < length (available_specs (heap w ! a) ps)" by simp
  then obtain v where v: "map_of (heap w ! a) (available_specs (heap w ! a) ps ! i) = Some v"
    using available_specs_keys nth_mem by blast
  have "dict_isub1 a (available_specs (heap w ! a) ps ! i) (w\<lparr>rng := g'\<rparr>)
      = Return () (w\<lparr>rng := g',
          heap := (heap w)[a := decr (heap w ! a) (available_specs (heap w ! a) ps ! i)]\<rparr>)"
    using v by (simp add: dict_isub1_present)
  with False draw i show ?thesis
    by (simp add: fallback_def choice_def Let_def)
qed

lemma process_row_eq:
  assumes "rng_ok R" "a < length (heap w)"
  shows "process_row R a fb pcs r (asg, snaps) w =
     (case step R fb (row_prefs pcs r) (heap w ! a) (rng w) of
        (c, d', g') \<Rightarrow>
          Return (dict_set asg (row_id r) c,
                  snaps @ [\<lparr>student_id = row_id r, gpa = row_gpa r, prefs = row_prefs pcs r,
                            chosen = c, remaining = d', assignments = dict_set asg (row_id r) c\<rparr>])
                 (w\<lparr>heap := (heap w)[a := d'], rng := g'\<rparr>))"
  using assms(2)
  by (auto simp: process_row_def first_fit_eq fallback_eq[OF assms(1)] step_def Let_def
           split: option.splits prod.splits)

lemma for_rows_eq:
  assumes "rng_ok R"
  shows "a < length (heap w) \<Longrightarrow>
     for_rows R a fb pcs rs (asg, snaps) w =
     (case after_rows R fb pcs rs (heap w ! a) (rng w) asg of
        (d', g', asg') \<Rightarrow>
          Return (asg', snaps @ trace R fb pcs rs (heap w ! a) (rng w) asg)
                 (w\<lparr>heap := (heap w)[a := d'], rng := g'\<rparr>))"
proof (induction rs arbitrary: asg snaps w)
  case Nil
  then show ?case by simp
next
  case (Cons r rs)
  show ?case
    using Cons.prems
    by (simp add: process_row_eq[OF assms] Cons.IH split: prod.splits)
qed

lemma allocation_steps_eq:
  assumes "rng_ok R" "''id'' \<in> set (columns df)" "''gpa'' \<in> set (columns df)"
  shows "allocation_steps R df cd mp fb seed w =
     (case after_rows R fb (pref_cols R (columns df) mp) (sort_values R (rows df))
             (heap w ! cd) (case seed of None \<Rightarrow> rng w | Some s \<Rightarrow> seed_state R s) [] of
        (d', g', asg') \<Rightarrow>
          Return (trace R fb (pref_cols R (columns df) mp) (sort_values R (rows df))
                    (heap w ! cd) (case seed of None \<Rightarrow> rng w | Some s \<Rightarrow> seed_state R s) [])
                 (w\<lparr>heap := heap w @ [d'], rng := g'\<rparr>))"
  using assms(2,3)
  by (cases seed)
     (simp_all add: allocation_steps_def dict_copy_def for_rows_eq[OF assms(1)] nth_append
        split: prod.splits)

lemma allocation_steps_missing:
  assumes "''id'' \<notin> set (columns df) \<or> ''gpa'' \<notin> set (columns df)"
  shows "allocation_steps R df cd mp fb seed w =
     Raise ValueError (case seed of None \<Rightarrow> w | Some s \<Rightarrow> w\<lparr>rng := seed_state R s\<rparr>)"
  using assms by (auto simp: allocation_steps_def Let_def)

section \<open>The loop writes to the working copy only\<close>

lemma frame_refl: "frame a w w"
  by (simp add: frame_def)

lemma frame_trans: "frame a w w' \<Longrightarrow> frame a w' w'' \<Longrightarrow> frame a w w''"
  by (simp add: frame_def)

lemma dict_isub1_frame: "frame a w (world_of (dict_isub1 a k w))"
  by (simp add: frame_def dict_isub1_def world_of_def split: option.splits)

lemma first_fit_frame: "frame a w (world_of (first_fit a ps w))"
  by (simp add: first_fit_eq frame_def world_of_def split: option.splits)

lemma fallback_frame: "frame a w (world_of (fallback R a ps w))"
  by (auto simp: fallback_def choice_def dict_isub1_def Let_def frame_def world_of_def
       split: option.splits prod.splits result.splits if_splits)

lemma process_row_frame: "frame a w (world_of (process_row R a fb pcs r st w))"
proof -
  have ff: "frame a w (world_of (first_fit a (row_prefs pcs r) w))" by (rule first_fit_frame)
  show ?thesis
  proof (cases "first_fit a (row_prefs pcs r) w")
    case (Raise e w1)
    with ff show ?thesis by (simp add: process_row_def world_of_def)
  next
    case (Return c1 w1)
    with ff have f1: "frame a w w1" by (simp add: world_of_def)
    show ?thesis
    proof (cases "c1 = None \<and> fb")
      case True
      have "frame a w1 (world_of (fallback R a (row_prefs pcs r) w1))" by (rule fallback_frame)
      with f1 have "frame a w (world_of (fallback R a (row_prefs pcs r) w1))"
        by (rule frame_trans)
      with Return True show ?thesis
        by (auto simp: process_row_def world_of_def Let_def split: result.splits)
    next
      case False
      with Return f1 show ?thesis
        by (auto simp: process_row_def world_of_def Let_def)
    qed
  qed
qed

lemma for_rows_frame: "frame a w (world_of (for_rows R a fb pcs rs st w))"
proof (induction rs arbitrary: st w)
  case Nil
  then show ?case by (simp add: frame_refl world_of_def)
next
  case (Cons r rs)
  have pr: "frame a w (world_of (process_row R a fb pcs r st w))" by (rule process_row_frame)
  show ?case
  proof (cases "process_row R a fb pcs r st w")
    case (Raise e w1)
    with pr show ?thesis by (simp add: world_of_def)
  next
    case (Return st1 w1)
    with pr have "frame a w w1" by (simp add: world_of_def)
    moreover have "frame a w1 (world_of (for_rows R a fb pcs rs st1 w1))" by (rule Cons.IH)
    ultimately show ?thesis using Return by (simp add: frame_trans)
  qed
qed

lemma allocation_steps_frame:
  "take (length (heap w)) (heap (world_of (allocation_steps R df cd mp fb seed w))) = heap w"
proof (cases "''id'' \<notin> set (columns df) \<or> ''gpa'' \<notin> set (columns df)")
  case True
  then show ?thesis
    by (cases seed) (simp_all add: allocation_steps_missing world_of_def)
next
  case False
  define w0 where "w0 = (case seed of None \<Rightarrow> w | Some s \<Rightarrow> w\<lparr>rng := seed_state R s\<rparr>)"
  define w1 where "w1 = w0\<lparr>heap := heap w0 @ [heap w0 ! cd]\<rparr>"
  have h0: "heap w0 = heap w" by (simp add: w0_def split: option.splits)
  let ?res = "for_rows R (length (heap w0)) fb (pref_cols R (columns df) mp)
       (sort_values R (rows df)) ([], []) w1"
  have fr: "frame (length (heap w0)) w1 (world_of ?res)" by (rule for_rows_frame)
  have eq: "world_of (allocation_steps R df cd mp fb seed w) = world_of ?res"
    using False
    by (simp add: allocation_steps_def dict_copy_def w0_def[symmetric] w1_def world_of_def
          split: result.splits)
  have "take (length (heap w)) (heap (world_of ?res)) = take (length (heap w)) (heap w1)"
    using fr h0 by (auto simp: frame_def list_eq_iff_nth_eq)
  also have "\<dots> = heap w" by (simp add: w1_def h0)
  finally show ?thesis using eq by simp
qed

section \<open>Properties of one step and of the trace\<close>

lemma dict_get_decr_same: "dict_get (decr d c) c 0 = dict_get d c 0 - 1"
  by (simp add: decr_def dict_set_def dict_get_def update_conv')

lemma dict_get_decr_other: "c' \<noteq> c \<Longrightarrow> dict_get (decr d c) c' 0 = dict_get d c' 0"
  by (simp add: decr_def dict_set_def dict_get_def update_conv')

lemma dict_get_absent: "p \<notin> fst ` set d \<Longrightarrow> dict_get d p dflt = dflt"
  by (simp add: dict_get_def map_of_eq_None_iff[THEN iffD2])

lemma distinct_decr: "distinct (map fst d) \<Longrightarrow> distinct (map fst (decr d c))"
  by (simp add: decr_def dict_set_def distinct_update)

lemma available_specs_set:
  assumes "distinct (map fst d)"
  shows "set (available_specs d ps) = {c. 0 < dict_get d c 0 \<and> c \<notin> set ps}"
proof (rule set_eqI)
  fix c
  have "c \<in> set (available_specs d ps) \<longleftrightarrow> (\<exists>v. (c, v) \<in> set d \<and> 0 < v \<and> c \<notin> set ps)"
    by (force simp: available_specs_def)
  also have "\<dots> \<longleftrightarrow> (\<exists>v. map_of d c = Some v \<and> 0 < v \<and> c \<notin> set ps)"
    using assms by simp
  also have "\<dots> \<longleftrightarrow> 0 < dict_get d c 0 \<and> c \<notin> set ps"
    by (auto simp: dict_get_def split: option.splits)
  finally show "c \<in> set (available_specs d ps) \<longleftrightarrow> c \<in> {c. 0 < dict_get d c 0 \<and> c \<notin> set ps}"
    by simp
qed

lemma available_specs_distinct:
  "distinct (map fst d) \<Longrightarrow> distinct (available_specs d ps)"
  by (simp add: available_specs_def distinct_map_filter)

lemma find_first: "\<forall>x\<in>set xs. \<not> P x \<Longrightarrow> P c \<Longrightarrow> find P (xs @ c # ys) = Some c"
  by (induction xs) auto

lemma step_primary:
  assumes "ps = xs @ c # ys" "\<forall>p\<in>set xs. dict_get d p 0 \<le> 0" "0 < dict_get d c 0"
  shows "step R fb ps d g = (Some c, decr d c, g)"
proof -
  have "find (\<lambda>p. 0 < dict_get d p 0) (xs @ c # ys) = Some c"
    using assms(2,3) by (intro find_first) auto
  with assms(1) show ?thesis by (simp add: step_def)
qed

lemma step_no_pref:
  assumes "\<forall>p\<in>set ps. dict_get d p 0 \<le> 0"
  shows "step R fb ps d g =
     (if fb \<and> available_specs d ps \<noteq> [] then
        (case randbelow R g (length (available_specs d ps)) of
           (i, g') \<Rightarrow> (Some (available_specs d ps ! i), decr d (available_specs d ps ! i), g'))
      else (None, d, g))"
proof -
  have "find (\<lambda>p. 0 < dict_get d p 0) ps = None"
    using assms by (auto simp: find_None_iff)
  then show ?thesis by (simp add: step_def)
qed

lemma step_distinct:
  "distinct (map fst d) \<Longrightarrow> step R fb ps d g = (c, d', g') \<Longrightarrow> distinct (map fst d')"
  by (auto simp: step_def distinct_decr split: option.splits if_splits prod.splits)

lemma step_cases:
  assumes "step R fb ps d g = (ch, d', g')"
  shows "(ch = None \<and> d' = d) \<or> (\<exists>x. ch = Some x \<and> d' = decr d x)"
proof (cases "find (\<lambda>p. 0 < dict_get d p 0) ps")
  case None
  with assms show ?thesis
    by (auto simp: step_def split: if_splits prod.splits)
next
  case (Some x)
  with assms have "ch = Some x" "d' = decr d x"
    by (simp_all add: step_def)
  then show ?thesis by blast
qed

lemma step_count:
  assumes "step R fb ps d g = (ch, d', g')"
  shows "dict_get d' c 0 = dict_get d c 0 - (if ch = Some c then 1 else 0)"
proof -
  from step_cases[OF assms] show ?thesis
  proof
    assume "ch = None \<and> d' = d"
    then show ?thesis by simp
  next
    assume "\<exists>x. ch = Some x \<and> d' = decr d x"
    then obtain x where "ch = Some x" "d' = decr d x" by blast
    then show ?thesis
      by (cases "x = c") (simp_all add: dict_get_decr_same dict_get_decr_other)
  qed
qed

lemma trace_length: "length (trace R fb pcs rs d g asg) = length rs"
  by (induction rs arbitrary: d g asg) (auto split: prod.splits)

lemma trace_rows:
  "map (\<lambda>s. (student_id s, gpa s, prefs s)) (trace R fb pcs rs d g asg)
     = map (\<lambda>r. (row_id r, row_gpa r, row_prefs pcs r)) rs"
  by (induction rs arbitrary: d g asg) (auto split: prod.splits)

lemma trace_row_nth:
  assumes "k < length rs"
  shows "student_id (trace R fb pcs rs d g asg ! k) = row_id (rs ! k)"
    and "gpa (trace R fb pcs rs d g asg ! k) = row_gpa (rs ! k)"
    and "prefs (trace R fb pcs rs d g asg ! k) = row_prefs pcs (rs ! k)"
proof -
  have "map (\<lambda>s. (student_id s, gpa s, prefs s)) (trace R fb pcs rs d g asg) ! k
      = map (\<lambda>r. (row_id r, row_gpa r, row_prefs pcs r)) rs ! k"
    by (simp only: trace_rows)
  with assms show "student_id (trace R fb pcs rs d g asg ! k) = row_id (rs ! k)"
    and "gpa (trace R fb pcs rs d g asg ! k) = row_gpa (rs ! k)"
    and "prefs (trace R fb pcs rs d g asg ! k) = row_prefs pcs (rs ! k)"
    by (simp_all add: trace_length)
qed

lemma trace_nth:
  "k < length rs \<Longrightarrow>
   \<exists>g0 g1. step R fb (row_prefs pcs (rs ! k)) (caps_before d (trace R fb pcs rs d g asg) k) g0
            = (chosen (trace R fb pcs rs d g asg ! k), remaining (trace R fb pcs rs d g asg ! k), g1)"
proof (induction rs arbitrary: d g asg k)
  case Nil
  then show ?case by simp
next
  case (Cons r rs)
  obtain c d' g' where st: "step R fb (row_prefs pcs r) d g = (c, d', g')"
    by (cases "step R fb (row_prefs pcs r) d g") auto
  show ?case
  proof (cases k)
    case 0
    with st show ?thesis by (auto simp: caps_before_def)
  next
    case (Suc j)
    with Cons.prems have j: "j < length rs" by simp
    from Cons.IH[OF j, of d' g' "dict_set asg (row_id r) c"]
    obtain g0 g1 where
      "step R fb (row_prefs pcs (rs ! j))
         (caps_before d' (trace R fb pcs rs d' g' (dict_set asg (row_id r) c)) j) g0
       = (chosen (trace R fb pcs rs d' g' (dict_set asg (row_id r) c) ! j),
          remaining (trace R fb pcs rs d' g' (dict_set asg (row_id r) c) ! j), g1)"
      by blast
    then show ?thesis
      using Suc st by (cases j) (auto simp: caps_before_def)
  qed
qed

lemma trace_before_distinct:
  "distinct (map fst d) \<Longrightarrow> k \<le> length rs \<Longrightarrow>
   distinct (map fst (caps_before d (trace R fb pcs rs d g asg) k))"
proof (induction rs arbitrary: d g asg k)
  case Nil
  then show ?case by (simp add: caps_before_def)
next
  case (Cons r rs)
  obtain c d' g' where st: "step R fb (row_prefs pcs r) d g = (c, d', g')"
    by (cases "step R fb (row_prefs pcs r) d g") auto
  have d': "distinct (map fst d')" using step_distinct[OF Cons.prems(1) st] .
  show ?case
  proof (cases k)
    case 0
    with Cons.prems show ?thesis by (simp add: caps_before_def)
  next
    case (Suc j)
    with Cons.prems have j: "j \<le> length rs" by simp
    from Cons.IH[OF d' j, of g' "dict_set asg (row_id r) c"]
    show ?thesis using Suc st by (cases j) (auto simp: caps_before_def)
  qed
qed

lemma fallback_Return:
  assumes "fallback R a ps w = Return c w'"
  shows "(available_specs (heap w ! a) ps = [] \<and> c = None \<and> w' = w)
       \<or> (available_specs (heap w ! a) ps \<noteq> []
          \<and> (\<exists>i g'. randbelow R (rng w) (length (available_specs (heap w ! a) ps)) = (i, g')
                \<and> i < length (available_specs (heap w ! a) ps)
                \<and> c = Some (available_specs (heap w ! a) ps ! i)
                \<and> w' = w\<lparr>heap := (heap w)[a := decr (heap w ! a) (available_specs (heap w ! a) ps ! i)],
                          rng := g'\<rparr>))"
proof (cases "available_specs (heap w ! a) ps = []")
  case True
  with assms show ?thesis by (simp add: fallback_def)
next
  case False
  obtain i g' where draw:
    "randbelow R (rng w) (length (available_specs (heap w ! a) ps)) = (i, g')"
    by (cases "randbelow R (rng w) (length (available_specs (heap w ! a) ps))")
  have i: "i < length (available_specs (heap w ! a) ps)"
  proof (rule ccontr)
    assume "\<not> i < length (available_specs (heap w ! a) ps)"
    with False draw have "fallback R a ps w = Raise IndexError (w\<lparr>rng := g'\<rparr>)"
      by (simp add: fallback_def choice_def Let_def)
    with assms show False by simp
  qed
  then obtain v where v: "map_of (heap w ! a) (available_specs (heap w ! a) ps ! i) = Some v"
    using available_specs_keys nth_mem by blast
  have sub: "dict_isub1 a (available_specs (heap w ! a) ps ! i) (w\<lparr>rng := g'\<rparr>)
      = Return () (w\<lparr>rng := g',
          heap := (heap w)[a := decr (heap w ! a) (available_specs (heap w ! a) ps ! i)]\<rparr>)"
    using v by (simp add: dict_isub1_present)
  have "fallback R a ps w = Return (Some (available_specs (heap w ! a) ps ! i))
          (w\<lparr>heap := (heap w)[a := decr (heap w ! a) (available_specs (heap w ! a) ps ! i)],
             rng := g'\<rparr>)"
    using False draw i sub by (simp add: fallback_def choice_def Let_def)
  with assms have "c = Some (available_specs (heap w ! a) ps ! i)"
    and "w' = w\<lparr>heap := (heap w)[a := decr (heap w ! a) (available_specs (heap w ! a) ps ! i)],
                  rng := g'\<rparr>"
    by simp_all
  with False draw i show ?thesis by blast
qed

lemma process_row_Return:
  assumes "process_row R a fb pcs r (asg, snaps) w = Return st' w'" "a < length (heap w)"
  shows "\<exists>c d' g'. step R fb (row_prefs pcs r) (heap w ! a) (rng w) = (c, d', g')
           \<and> st' = (dict_set asg (row_id r) c,
                     snaps @ [\<lparr>student_id = row_id r, gpa = row_gpa r, prefs = row_prefs pcs r,
                               chosen = c, remaining = d', assignments = dict_set asg (row_id r) c\<rparr>])
           \<and> w' = w\<lparr>heap := (heap w)[a := d'], rng := g'\<rparr>"
proof -
  let ?ps = "row_prefs pcs r"
  let ?snap = "\<lambda>c d'. \<lparr>student_id = row_id r, gpa = row_gpa r, prefs = ?ps,
                         chosen = c, remaining = d', assignments = dict_set asg (row_id r) c\<rparr>"
  have goal: "?thesis"
    if "step R fb ?ps (heap w ! a) (rng w) = (c, d', g')"
      and "process_row R a fb pcs r (asg, snaps) w
             = Return (dict_set asg (row_id r) c, snaps @ [?snap c d'])
                 (w\<lparr>heap := (heap w)[a := d'], rng := g'\<rparr>)" for c d' g'
  proof -
    from that(2) assms(1) have "st' = (dict_set asg (row_id r) c, snaps @ [?snap c d'])"
      and "w' = w\<lparr>heap := (heap w)[a := d'], rng := g'\<rparr>"
      by simp_all
    with that(1) show ?thesis by blast
  qed
  show ?thesis
  proof (cases "find (\<lambda>p. 0 < dict_get (heap w ! a) p 0) ?ps")
    case (Some c)
    have st: "step R fb ?ps (heap w ! a) (rng w) = (Some c, decr (heap w ! a) c, rng w)"
      using Some by (simp add: step_def)
    have "process_row R a fb pcs r (asg, snaps) w
            = Return (dict_set asg (row_id r) (Some c), snaps @ [?snap (Some c) (decr (heap w ! a) c)])
                (w\<lparr>heap := (heap w)[a := decr (heap w ! a) c], rng := rng w\<rparr>)"
      using Some assms(2) by (simp add: process_row_def first_fit_eq Let_def)
    with st show ?thesis by (rule goal)
  next
    case None
    show ?thesis
    proof (cases "fb \<and> available_specs (heap w ! a) ?ps \<noteq> []")
      case False
      have st: "step R fb ?ps (heap w ! a) (rng w) = (None, heap w ! a, rng w)"
        using None False by (auto simp: step_def)
      have "process_row R a fb pcs r (asg, snaps) w
              = Return (dict_set asg (row_id r) None, snaps @ [?snap None (heap w ! a)])
                  (w\<lparr>heap := (heap w)[a := heap w ! a], rng := rng w\<rparr>)"
        using None False by (auto simp: process_row_def first_fit_eq Let_def fallback_def)
      with st show ?thesis by (rule goal)
    next
      case True
      let ?av = "available_specs (heap w ! a) ?ps"
      from True None assms(1) obtain c w2 where fbr: "fallback R a ?ps w = Return c w2"
        by (cases "fallback R a ?ps w") (simp_all add: process_row_def first_fit_eq Let_def)
      from fallback_Return[OF fbr] True obtain i g' where
        draw: "randbelow R (rng w) (length ?av) = (i, g')"
        and i: "i < length ?av"
        and c: "c = Some (?av ! i)"
        and w2: "w2 = w\<lparr>heap := (heap w)[a := decr (heap w ! a) (?av ! i)], rng := g'\<rparr>"
        by blast
      have st: "step R fb ?ps (heap w ! a) (rng w) = (Some (?av ! i), decr (heap w ! a) (?av ! i), g')"
        using None True draw by (simp add: step_def)
      have "process_row R a fb pcs r (asg, snaps) w
              = Return (dict_set asg (row_id r) (Some (?av ! i)),
                        snaps @ [?snap (Some (?av ! i)) (decr (heap w ! a) (?av ! i))])
                  (w\<lparr>heap := (heap w)[a := decr (heap w ! a) (?av ! i)], rng := g'\<rparr>)"
        using None True fbr c w2 assms(2)
        by (simp add: process_row_def first_fit_eq Let_def)
      with st show ?thesis by (rule goal)
    qed
  qed
qed

lemma for_rows_Return:
  "for_rows R a fb pcs rs (asg, snaps) w = Return (asg', snaps') w' \<Longrightarrow> a < length (heap w) \<Longrightarrow>
   snaps' = snaps @ trace R fb pcs rs (heap w ! a) (rng w) asg"
proof (induction rs arbitrary: asg snaps w)
  case Nil
  then show ?case by simp
next
  case (Cons r rs)
  from Cons.prems(1) obtain st1 w1 where
    pr: "process_row R a fb pcs r (asg, snaps) w = Return st1 w1"
    and rest: "for_rows R a fb pcs rs st1 w1 = Return (asg', snaps') w'"
    by (auto split: result.splits)
  from process_row_Return[OF pr Cons.prems(2)] obtain c d' g' where
    st: "step R fb (row_prefs pcs r) (heap w ! a) (rng w) = (c, d', g')"
    and st1: "st1 = (dict_set asg (row_id r) c,
                     snaps @ [\<lparr>student_id = row_id r, gpa = row_gpa r, prefs = row_prefs pcs r,
                               chosen = c, remaining = d', assignments = dict_set asg (row_id r) c\<rparr>])"
    and w1: "w1 = w\<lparr>heap := (heap w)[a := d'], rng := g'\<rparr>"
    by blast
  have a1: "a < length (heap w1)" using Cons.prems(2) w1 by simp
  from Cons.IH[OF rest[unfolded st1] a1] st w1 Cons.prems(2)
  show ?case by simp
qed

lemma run_is_trace:
  assumes "allocation_steps R df cd mp fb seed w = Return snaps w'"
  shows "snaps = trace R fb (pref_cols R (columns df) mp) (sort_values R (rows df))
                   (heap w ! cd) (case seed of None \<Rightarrow> rng w | Some s \<Rightarrow> seed_state R s) []"
proof -
  have cols: "\<not> (''id'' \<notin> set (columns df) \<or> ''gpa'' \<notin> set (columns df))"
    using assms allocation_steps_missing[of df R cd mp fb seed w] by auto
  define w0 where "w0 = (case seed of None \<Rightarrow> w | Some s \<Rightarrow> w\<lparr>rng := seed_state R s\<rparr>)"
  define w1 where "w1 = w0\<lparr>heap := heap w0 @ [heap w0 ! cd]\<rparr>"
  have h0: "heap w0 = heap w" "rng w0 = (case seed of None \<Rightarrow> rng w | Some s \<Rightarrow> seed_state R s)"
    by (simp_all add: w0_def split: option.splits)
  from assms cols obtain asg' where
    fr: "for_rows R (length (heap w0)) fb (pref_cols R (columns df) mp)
           (sort_values R (rows df)) ([], []) w1 = Return (asg', snaps) w'"
    by (auto simp: allocation_steps_def dict_copy_def w0_def[symmetric] w1_def
             split: result.splits)
  have "length (heap w0) < length (heap w1)" by (simp add: w1_def)
  from for_rows_Return[OF fr this] show ?thesis
    by (simp add: w1_def h0)
qed

lemma sort_ok_mset: "sort_ok R \<Longrightarrow> mset (sort_values R rs) = mset rs"
  by (simp add: sort_ok_def)

lemma sort_ok_length: "sort_ok R \<Longrightarrow> length (sort_values R rs) = length rs"
  using sort_ok_mset[of R rs] by (metis size_mset)

lemma sort_ok_sorted:
  "sort_ok R \<Longrightarrow> sorted_wrt (\<lambda>a b. b \<le> a) (map row_gpa (sort_values R rs))"
  by (simp add: sort_ok_def sorted_wrt_map)

lemma sort_ok_ids:
  "sort_ok R \<Longrightarrow> mset (map row_id (sort_values R rs)) = mset (map row_id rs)"
  using sort_ok_mset[of R rs] by (metis mset_map)

lemma sort_ok_distinct_ids:
  "sort_ok R \<Longrightarrow> distinct (map row_id rs) \<Longrightarrow> distinct (map row_id (sort_values R rs))"
  using sort_ok_ids[of R rs] by (metis mset_eq_imp_distinct_iff)

lemma mset_two: "mset xs = {#a, b#} \<Longrightarrow> xs = [a, b] \<or> xs = [b, a]"
proof -
  assume m: "mset xs = {#a, b#}"
  then have "length xs = 2" by (metis size_mset size_add_mset size_empty numeral_2_eq_2)
  then obtain x y where xy: "xs = [x, y]"
    by (metis length_0_conv length_Suc_conv numeral_2_eq_2)
  with m have "{#x, y#} = {#a, b#}" by simp
  then have "(x = a \<and> y = b) \<or> (x = b \<and> y = a)"
    by (auto simp: add_eq_conv_ex)
  with xy show ?thesis by auto
qed

lemma sort_ok_two:
  assumes "sort_ok R" "rs = [r1, r2] \<or> rs = [r2, r1]" "row_gpa r2 < row_gpa r1"
  shows "sort_values R rs = [r1, r2]"
proof -
  have "mset (sort_values R rs) = {#r1, r2#}"
    using sort_ok_mset[OF assms(1), of rs] assms(2) by auto
  then have "sort_values R rs = [r1, r2] \<or> sort_values R rs = [r2, r1]" by (rule mset_two)
  moreover have "sorted_wrt (\<lambda>a b. row_gpa b \<le> row_gpa a) (sort_values R rs)"
    using assms(1) by (simp add: sort_ok_def)
  ultimately show ?thesis using assms(3) by auto
qed

lemma dict_set_new: "i \<notin> fst ` set asg \<Longrightarrow> dict_set asg i v = asg @ [(i, v)]"
  by (induction asg) (auto simp: dict_set_def)

lemma trace_assignments_fresh:
  "distinct (map row_id rs) \<Longrightarrow> set (map row_id rs) \<inter> fst ` set asg = {} \<Longrightarrow> k < length rs \<Longrightarrow>
   assignments (trace R fb pcs rs d g asg ! k)
     = asg @ map (\<lambda>s. (student_id s, chosen s)) (take (Suc k) (trace R fb pcs rs d g asg))"
proof (induction rs arbitrary: d g asg k)
  case Nil
  then show ?case by simp
next
  case (Cons r rs)
  obtain c d' g' where st: "step R fb (row_prefs pcs r) d g = (c, d', g')"
    by (cases "step R fb (row_prefs pcs r) d g") auto
  have new: "dict_set asg (row_id r) c = asg @ [(row_id r, c)]"
    using Cons.prems(2) by (intro dict_set_new) auto
  show ?case
  proof (cases k)
    case 0
    with st new show ?thesis by simp
  next
    case (Suc j)
    with Cons.prems have j: "j < length rs" by simp
    have d1: "distinct (map row_id rs)" using Cons.prems(1) by simp
    have d2: "set (map row_id rs) \<inter> fst ` set (asg @ [(row_id r, c)]) = {}"
      using Cons.prems(1,2) by auto
    from Cons.IH[OF d1 d2 j, of d' g']
    show ?thesis using Suc st new by simp
  qed
qed

lemma trace_conservation:
  "rs \<noteq> [] \<Longrightarrow>
   dict_get (remaining (last (trace R fb pcs rs d g asg))) c 0
     = dict_get d c 0 - int (length (filter (\<lambda>s. chosen s = Some c) (trace R fb pcs rs d g asg)))"
proof (induction rs arbitrary: d g asg)
  case Nil
  then show ?case by simp
next
  case (Cons r rs)
  obtain ch d' g' where st: "step R fb (row_prefs pcs r) d g = (ch, d', g')"
    by (cases "step R fb (row_prefs pcs r) d g") auto
  note cnt = step_count[OF st, of c]
  show ?case
  proof (cases "rs = []")
    case True
    with st cnt show ?thesis by simp
  next
    case False
    then have ne: "trace R fb pcs rs d' g' (dict_set asg (row_id r) ch) \<noteq> []"
      using trace_length[of R fb pcs rs d' g' "dict_set asg (row_id r) ch"] by auto
    from Cons.IH[OF False, of d' g' "dict_set asg (row_id r) ch"] st cnt ne
    show ?thesis by simp
  qed
qed

lemma run_returns:
  assumes "rng_ok R" "''id'' \<in> set (columns df)" "''gpa'' \<in> set (columns df)"
  shows "\<exists>w'. allocation_steps R df cd mp fb seed w =
     Return (trace R fb (pref_cols R (columns df) mp) (sort_values R (rows df))
               (heap w ! cd) (case seed of None \<Rightarrow> rng w | Some s \<Rightarrow> seed_state R s) []) w'"
  unfolding allocation_steps_eq[OF assms] by (auto split: prod.splits)

lemma trace_last_assignments:
  assumes "distinct (map row_id rs)" "rs \<noteq> []"
  shows "assignments (last (trace R fb pcs rs d g []))
           = map (\<lambda>s. (student_id s, chosen s)) (trace R fb pcs rs d g [])"
proof -
  let ?tr = "trace R fb pcs rs d g []"
  have len: "length ?tr = length rs" by (rule trace_length)
  with assms(2) have ne: "?tr \<noteq> []" by auto
  have k: "length rs - 1 < length rs" using assms(2) by simp
  have "assignments (?tr ! (length rs - 1))
          = [] @ map (\<lambda>s. (student_id s, chosen s)) (take (Suc (length rs - 1)) ?tr)"
    using assms(1) k by (intro trace_assignments_fresh) auto
  moreover have "last ?tr = ?tr ! (length rs - 1)"
    using ne len by (simp add: last_conv_nth)
  moreover have "take (Suc (length rs - 1)) ?tr = ?tr"
    using len assms(2) by simp
  ultimately show ?thesis by simp
qed

lemma trace_two_students:
  assumes ps: "row_prefs pcs r1 = [a, b]" "row_prefs pcs r2 = [a, b]"
    and ab: "a \<noteq> b"
    and caps: "dict_get d a 0 = 1" "dict_get d b 0 = 1"
  shows "map (\<lambda>s. (student_id s, chosen s)) (trace R fb pcs [r1, r2] d g [])
           = [(row_id r1, Some a), (row_id r2, Some b)]"
proof -
  have s1: "step R fb [a, b] d g = (Some a, decr d a, g)" for g
    using caps by (simp add: step_def)
  have "dict_get (decr d a) a 0 = 0" "dict_get (decr d a) b 0 = 1"
    using caps ab by (simp_all add: dict_get_decr_same dict_get_decr_other)
  then have s2: "step R fb [a, b] (decr d a) g = (Some b, decr (decr d a) b, g)" for g
    by (simp add: step_def)
  show ?thesis
    by (simp add: ps s1 s2)
qed

section \<open>The worked examples, evaluated\<close>

lemma lcg_ok: "rng_ok lcg"
  by (simp add: rng_ok_def lcg_def)

lemma sort_desc_stable_sorted:
  "sorted_wrt (\<lambda>a b. row_gpa b \<le> row_gpa a) (sort_desc_stable rs)"
proof -
  have "sorted (map row_gpa (sort_key row_gpa (rev rs)))" by (rule sorted_sort_key)
  then have "sorted_wrt (\<lambda>a b. b \<le> a) (rev (map row_gpa (sort_key row_gpa (rev rs))))"
    by (simp add: sorted_wrt_rev)
  then show ?thesis by (simp add: sort_desc_stable_def rev_map sorted_wrt_map)
qed

lemma lcg_sort_ok: "sort_ok lcg"
  by (simp add: sort_ok_def lcg_def sort_desc_stable_sorted) (simp add: sort_desc_stable_def)

lemma lcg_int_str: "int_str lcg ''1'' = Some 1" "int_str lcg ''2'' = Some 2"
  by (simp_all add: lcg_def digits_int_def is_digit_def digit_val_def)

lemma pref_cols_two: "pref_cols lcg [''id'', ''gpa'', ''pref1'', ''pref2''] 2 = [''pref1'', ''pref2'']"
  by (simp add: pref_cols_def pref_index_def lcg_int_str slice_to_def)

lemma pref_cols_one: "pref_cols lcg [''id'', ''gpa'', ''pref1''] 5 = [''pref1'']"
  by (simp add: pref_cols_def pref_index_def lcg_int_str slice_to_def)

lemmas example_defs =
  mk_row_def step_def row_prefs_def List.map_filter_def dict_get_def decr_def dict_set_def
  available_specs_def sort_desc_stable_def

lemma run_priority:
  "allocation_steps lcg df_priority 0 2 False None world_priority
     = Return snaps_priority
         (world_priority\<lparr>heap := heap world_priority @ [[(''Software'', 0), (''Mechanical'', 0)]]\<rparr>)"
proof -
  have cols: "''id'' \<in> set (columns df_priority)" "''gpa'' \<in> set (columns df_priority)"
    by (simp_all add: df_priority_def)
  have pcs: "pref_cols lcg (columns df_priority) 2 = [''pref1'', ''pref2'']"
    by (simp add: df_priority_def pref_cols_two)
  show ?thesis
    unfolding allocation_steps_eq[OF lcg_ok cols] pcs
    by (simp add: df_priority_def world_priority_def snaps_priority_def example_defs lcg_def)
qed

lemma run_priority_reversed:
  "allocation_steps lcg df_priority_reversed 0 2 False None world_priority
     = Return snaps_priority
         (world_priority\<lparr>heap := heap world_priority @ [[(''Software'', 0), (''Mechanical'', 0)]]\<rparr>)"
proof -
  have cols: "''id'' \<in> set (columns df_priority_reversed)"
    "''gpa'' \<in> set (columns df_priority_reversed)"
    by (simp_all add: df_priority_reversed_def)
  have pcs: "pref_cols lcg (columns df_priority_reversed) 2 = [''pref1'', ''pref2'']"
    by (simp add: df_priority_reversed_def pref_cols_two)
  show ?thesis
    unfolding allocation_steps_eq[OF lcg_ok cols] pcs
    by (simp add: df_priority_reversed_def world_priority_def snaps_priority_def example_defs
          lcg_def)
qed

lemma run_fallback:
  "allocation_steps lcg df_fallback 0 2 True (Some 42) world_fallback
     = Return snaps_fallback
         \<lparr>heap = heap world_fallback
                   @ [[(''Software'', 0), (''Mechanical'', 0), (''Engineering Science'', 0)]],
          rng = 1250496027\<rparr>"
proof -
  have cols: "''id'' \<in> set (columns df_fallback)" "''gpa'' \<in> set (columns df_fallback)"
    by (simp_all add: df_fallback_def)
  have pcs: "pref_cols lcg (columns df_fallback) 2 = [''pref1'', ''pref2'']"
    by (simp add: df_fallback_def pref_cols_two)
  show ?thesis
    unfolding allocation_steps_eq[OF lcg_ok cols] pcs
    by (simp add: df_fallback_def world_fallback_def snaps_fallback_def example_defs lcg_def)
qed

lemma pref_cols_two_of_five:
  "pref_cols lcg [''id'', ''gpa'', ''pref1'', ''pref2''] 5 = [''pref1'', ''pref2'']"
  by (simp add: pref_cols_def pref_index_def lcg_int_str slice_to_def)

lemma run_unknown_pref:
  "allocation_steps lcg df_unknown_pref 0 5 True None world_same_id
     = Return snaps_unknown_pref
         (world_same_id\<lparr>heap := heap world_same_id @ [[(''Software'', 0)]]\<rparr>)"
proof -
  have cols: "''id'' \<in> set (columns df_unknown_pref)" "''gpa'' \<in> set (columns df_unknown_pref)"
    by (simp_all add: df_unknown_pref_def)
  have pcs: "pref_cols lcg (columns df_unknown_pref) 5 = [''pref1'', ''pref2'']"
    by (simp add: df_unknown_pref_def pref_cols_two_of_five)
  show ?thesis
    unfolding allocation_steps_eq[OF lcg_ok cols] pcs
    by (simp add: df_unknown_pref_def world_same_id_def snaps_unknown_pref_def example_defs lcg_def)
qed

lemma run_same_id:
  "allocation_steps lcg df_same_id 0 5 False None world_same_id
     = Return snaps_same_id (world_same_id\<lparr>heap := heap world_same_id @ [[(''Software'', 0)]]\<rparr>)"
proof -
  have cols: "''id'' \<in> set (columns df_same_id)" "''gpa'' \<in> set (columns df_same_id)"
    by (simp_all add: df_same_id_def)
  have pcs: "pref_cols lcg (columns df_same_id) 5 = [''pref1'']"
    by (simp add: df_same_id_def pref_cols_one)
  show ?thesis
    unfolding allocation_steps_eq[OF lcg_ok cols] pcs
    by (simp add: df_same_id_def world_same_id_def snaps_same_id_def example_defs lcg_def)
qed

section \<open>Properties of the score grid and its weights\<close>

lemma allowed_gpas_empty: "gpa_max < gpa_min \<Longrightarrow> allowed_gpas rnd gpa_min gpa_max = []"
  by (auto simp: allowed_gpas_def Let_def filter_empty_conv)

lemma uniforms_length: "uniforms L rnd k a b g = (us, g') \<Longrightarrow> length us = k"
  by (induction k arbitrary: g us g') (auto split: prod.splits)

lemma probs_of_length: "length (probs_of ws) = length ws"
  by (simp add: probs_of_def Let_def)

lemma probs_of_uniform:
  assumes "ws \<noteq> []" "sum_list ws \<le> 0"
  shows "probs_of ws = replicate (length ws) (1 / real (length ws))"
    and "sum_list (probs_of ws) = 1"
    and "\<forall>p\<in>set (probs_of ws). 0 \<le> p"
proof -
  show eq: "probs_of ws = replicate (length ws) (1 / real (length ws))"
    using assms(2)
    by (simp add: probs_of_def Let_def comp_def map_replicate_const sum_list_replicate)
  show "sum_list (probs_of ws) = 1"
    unfolding eq using assms(1) by (simp add: sum_list_replicate)
  show "\<forall>p\<in>set (probs_of ws). 0 \<le> p"
    unfolding eq by simp
qed

lemma level_weights_length: "level_weights L gs mean std = Inr ws \<Longrightarrow> length ws = length gs"
  by (induction gs arbitrary: ws) (auto split: sum.splits)

lemma level_weights_degenerate:
  "std \<le> 0 \<Longrightarrow> level_weights L gs mean std = Inr (replicate (length gs) 0)"
  by (induction gs) (simp_all add: normal_pdf_def)

lemma level_weights_total:
  "\<forall>x mu sigma. \<exists>p. density L x mu sigma = Inr p \<Longrightarrow> \<exists>ws. level_weights L gs mean std = Inr ws"
proof (induction gs)
  case Nil
  then show ?case by simp
next
  case (Cons g gs)
  from Cons.prems obtain q where "density L g mean std = Inr q" by blast
  then obtain p where "normal_pdf L g mean std = Inr p"
    by (cases "std \<le> 0") (simp_all add: normal_pdf_def)
  moreover from Cons obtain ws where "level_weights L gs mean std = Inr ws" by blast
  ultimately show ?case by simp
qed

lemma level_probs_length: "level_probs L gs mean std = Inr ps \<Longrightarrow> length ps = length gs"
  by (auto simp: level_probs_def probs_of_length level_weights_length split: sum.splits)

lemma level_probs_degenerate_std:
  assumes "gs \<noteq> []" "std \<le> 0"
  shows "level_probs L gs mean std = Inr (replicate (length gs) (1 / real (length gs)))"
proof -
  have "probs_of (replicate (length gs) 0) = replicate (length gs) (1 / real (length gs))"
    using probs_of_uniform(1)[of "replicate (length gs) 0"] assms(1)
    by (simp add: sum_list_replicate)
  then show ?thesis
    by (simp add: level_probs_def level_weights_degenerate[OF assms(2)])
qed

lemma weighted_scan_range:
  "weighted_scan idx cum ps r = Some j \<Longrightarrow> idx \<le> j \<and> j < idx + int (length ps)"
proof (induction ps arbitrary: idx cum)
  case Nil
  then show ?case by simp
next
  case (Cons p ps)
  show ?case
  proof (cases "r \<le> cum + p")
    case True
    with Cons.prems show ?thesis by simp
  next
    case False
    with Cons.prems have "weighted_scan (idx + 1) (cum + p) ps r = Some j" by simp
    from Cons.IH[OF this] show ?thesis by simp
  qed
qed

lemma weighted_pop_range: "ps \<noteq> [] \<Longrightarrow> 0 \<le> weighted_pop ps r \<and> weighted_pop ps r < int (length ps)"
  using weighted_scan_range[of 0 0 ps r]
  by (cases "weighted_scan 0 0 ps r") (auto simp: weighted_pop_def)

lemma list_pop_in_range:
  assumes "0 \<le> i" "i < int (length xs)"
  shows "\<exists>x xs'. list_pop xs i = Some (x, xs') \<and> mset xs = add_mset x (mset xs')
           \<and> length xs' = length xs - 1"
proof -
  have n: "nat i < length xs" using assms by simp
  have "mset xs = mset (take (nat i) xs @ xs ! nat i # drop (Suc (nat i)) xs)"
    using n by (simp add: id_take_nth_drop[symmetric])
  then have "mset xs = add_mset (xs ! nat i) (mset (take (nat i) xs @ drop (Suc (nat i)) xs))"
    by simp
  moreover have "length (take (nat i) xs @ drop (Suc (nat i)) xs) = length xs - 1"
    using n by simp
  ultimately show ?thesis
    using assms by (simp add: list_pop_def Let_def)
qed

lemma list_pop_Some:
  assumes "list_pop xs i = Some (x, xs')"
  shows "mset xs = add_mset x (mset xs')"
proof -
  define j where "j = (if i < 0 then i + int (length xs) else i)"
  from assms have j: "0 \<le> j" "j < int (length xs)"
    and eq: "x = xs ! nat j" "xs' = take (nat j) xs @ drop (Suc (nat j)) xs"
    by (auto simp: list_pop_def Let_def j_def split: if_splits)
  have n: "nat j < length xs" using j by simp
  have "mset xs = mset (take (nat j) xs @ xs ! nat j # drop (Suc (nat j)) xs)"
    using n by (simp add: id_take_nth_drop[symmetric])
  then show ?thesis by (simp add: eq)
qed

lemma pop_loop_all:
  "length cps = length cs \<Longrightarrow> m = length cs \<Longrightarrow>
   \<exists>gpas g'. pop_loop L m cs cps acc g = (Inr gpas, g') \<and> mset gpas = mset acc + mset cs"
proof (induction m arbitrary: cs cps acc g)
  case 0
  then show ?case by simp
next
  case (Suc m)
  obtain r g1 where r: "random_float L g = (r, g1)" by (cases "random_float L g")
  have ne: "cps \<noteq> []" using Suc.prems by auto
  note rg = weighted_pop_range[OF ne, of r]
  from list_pop_in_range[of "weighted_pop cps r" cs] rg Suc.prems
  obtain x cs' where p1: "list_pop cs (weighted_pop cps r) = Some (x, cs')"
    and m1: "mset cs = add_mset x (mset cs')" and l1: "length cs' = length cs - 1"
    by auto
  from list_pop_in_range[of "weighted_pop cps r" cps] rg
  obtain p cps' where p2: "list_pop cps (weighted_pop cps r) = Some (p, cps')"
    and l2: "length cps' = length cps - 1"
    by auto
  let ?cps = "if sum_list cps' > 0 then map (\<lambda>q. q / sum_list cps') cps' else cps'"
  have len: "length ?cps = length cs'" using l1 l2 Suc.prems by simp
  have m: "m = length cs'" using l1 Suc.prems by simp
  from Suc.IH[OF len m, of "acc @ [x]" g1]
  obtain gpas g' where "pop_loop L m cs' ?cps (acc @ [x]) g1 = (Inr gpas, g')"
    and "mset gpas = mset (acc @ [x]) + mset cs'"
    by blast
  then show ?case
    using r p1 p2 m1 by simp
qed

lemma generate_scores_raises:
  assumes "level_probs L (allowed_gpas rnd gpa_min gpa_max)
             (case mean of None \<Rightarrow> (gpa_min + gpa_max) / 2 | Some m \<Rightarrow> m)
             (case std of None \<Rightarrow> (gpa_max - gpa_min) / 6 | Some s \<Rightarrow> s) = Inl e"
  shows "generate_scores L rnd n gpa_min gpa_max seed mean std swr g = Inl e"
  using assms by (simp add: generate_scores_def generate_gpas_def Let_def)

lemma generate_scores_full_grid:
  assumes lp: "level_probs L (allowed_gpas rnd gpa_min gpa_max)
             (case mean of None \<Rightarrow> (gpa_min + gpa_max) / 2 | Some m \<Rightarrow> m)
             (case std of None \<Rightarrow> (gpa_max - gpa_min) / 6 | Some s \<Rightarrow> s) = Inr probs"
    and ne: "allowed_gpas rnd gpa_min gpa_max \<noteq> []"
  shows "\<exists>scores.
           generate_scores L rnd (length (allowed_gpas rnd gpa_min gpa_max)) gpa_min gpa_max
             seed mean std False g = Inr scores
         \<and> mset scores = mset (map (\<lambda>x. rnd x 3) (allowed_gpas rnd gpa_min gpa_max))"
proof -
  let ?grid = "allowed_gpas rnd gpa_min gpa_max"
  let ?g0 = "case seed of None \<Rightarrow> g | Some s \<Rightarrow> seed_sampler L s"
  have len: "length probs = length ?grid" using lp by (rule level_probs_length)
  from pop_loop_all[OF len refl, of L "[]" ?g0]
  obtain gpas g' where pl: "pop_loop L (length ?grid) ?grid probs [] ?g0 = (Inr gpas, g')"
    and ms: "mset gpas = mset ?grid"
    by auto
  have lg: "length gpas = length ?grid" using ms by (metis size_mset)
  have "fst (generate_gpas L rnd (length ?grid) gpa_min gpa_max seed mean std False g) = Inr gpas"
    using lp ne pl lg by (simp add: generate_gpas_def Let_def)
  then have "generate_scores L rnd (length ?grid) gpa_min gpa_max seed mean std False g
               = Inr (map (\<lambda>x. rnd x 3) gpas)"
    using lg by (simp add: generate_scores_def)
  moreover have "mset (map (\<lambda>x. rnd x 3) gpas) = mset (map (\<lambda>x. rnd x 3) ?grid)"
    using ms by (metis mset_map)
  ultimately show ?thesis by blast
qed

lemma generate_scores_all_levels:
  assumes res: "generate_scores L rnd n gpa_min gpa_max seed mean std False g = Inr scores"
    and n: "n = length (allowed_gpas rnd gpa_min gpa_max)"
    and ne: "allowed_gpas rnd gpa_min gpa_max \<noteq> []"
  shows "mset scores = mset (map (\<lambda>x. rnd x 3) (allowed_gpas rnd gpa_min gpa_max))"
proof (cases "level_probs L (allowed_gpas rnd gpa_min gpa_max)
             (case mean of None \<Rightarrow> (gpa_min + gpa_max) / 2 | Some m \<Rightarrow> m)
             (case std of None \<Rightarrow> (gpa_max - gpa_min) / 6 | Some s \<Rightarrow> s)")
  case (Inl e)
  from generate_scores_raises[OF Inl, of n seed False g] res show ?thesis by simp
next
  case (Inr probs)
  from generate_scores_full_grid[OF Inr ne, of seed g] res n show ?thesis by auto
qed

lemma generate_scores_returns:
  assumes tot: "\<forall>x mu sigma. \<exists>p. density L x mu sigma = Inr p"
    and n: "n = length (allowed_gpas rnd gpa_min gpa_max)"
    and ne: "allowed_gpas rnd gpa_min gpa_max \<noteq> []"
  shows "\<exists>scores. generate_scores L rnd n gpa_min gpa_max seed mean std False g = Inr scores"
proof -
  from level_weights_total[OF tot] obtain ws where
    "level_weights L (allowed_gpas rnd gpa_min gpa_max)
             (case mean of None \<Rightarrow> (gpa_min + gpa_max) / 2 | Some m \<Rightarrow> m)
             (case std of None \<Rightarrow> (gpa_max - gpa_min) / 6 | Some s \<Rightarrow> s) = Inr ws"
    by blast
  then have "level_probs L (allowed_gpas rnd gpa_min gpa_max)
             (case mean of None \<Rightarrow> (gpa_min + gpa_max) / 2 | Some m \<Rightarrow> m)
             (case std of None \<Rightarrow> (gpa_max - gpa_min) / 6 | Some s \<Rightarrow> s) = Inr (probs_of ws)"
    by (simp add: level_probs_def)
  from generate_scores_full_grid[OF this ne, of seed g] n show ?thesis by auto
qed

lemma pop_loop_subset:
  "pop_loop L m cs cps acc g = (Inr gpas, g') \<Longrightarrow> set gpas \<subseteq> set acc \<union> set cs"
proof (induction m arbitrary: cs cps acc g)
  case 0
  then show ?case by auto
next
  case (Suc m)
  obtain r g1 where r: "random_float L g = (r, g1)" by (cases "random_float L g")
  from Suc.prems r obtain x cs' where p1: "list_pop cs (weighted_pop cps r) = Some (x, cs')"
    by (cases "list_pop cs (weighted_pop cps r)") auto
  from Suc.prems r p1 obtain p cps' where p2: "list_pop cps (weighted_pop cps r) = Some (p, cps')"
    by (cases "list_pop cps (weighted_pop cps r)") auto
  from Suc.prems r p1 p2
  have "pop_loop L m cs'
          (if sum_list cps' > 0 then map (\<lambda>q. q / sum_list cps') cps' else cps')
          (acc @ [x]) g1 = (Inr gpas, g')"
    by simp
  from Suc.IH[OF this] have "set gpas \<subseteq> set (acc @ [x]) \<union> set cs'" .
  moreover have "set cs = insert x (set cs')"
    using list_pop_Some[OF p1] by (metis set_mset_mset set_mset_add_mset_insert)
  ultimately show ?case by auto
qed

lemma choices_subset:
  assumes "choices_ok L" "choices L population weights k g = (Inr xs, g')"
  shows "set xs \<subseteq> set population"
proof -
  from assms(2) have "xs = fst (choices_draw L g population weights k)"
    by (auto simp: choices_def split: if_splits prod.splits)
  with assms(1) show ?thesis by (simp add: choices_ok_def)
qed

lemma level_probs_Nil: "level_probs L [] mean std = Inr []"
  by (simp add: level_probs_def probs_of_def)

lemma generate_gpas_on_grid:
  assumes ok: "choices_ok L"
    and res: "generate_gpas L rnd n gpa_min gpa_max seed mean std swr g = (Inr gpas, g')"
  shows "set gpas \<subseteq> set (allowed_gpas rnd gpa_min gpa_max)"
proof (cases "allowed_gpas rnd gpa_min gpa_max = []")
  case True
  let ?g0 = "case seed of None \<Rightarrow> g | Some s \<Rightarrow> seed_sampler L s"
  obtain us g1 where u: "uniforms L rnd (max 1 n) gpa_min gpa_max ?g0 = (us, g1)"
    by (cases "uniforms L rnd (max 1 n) gpa_min gpa_max ?g0")
  have len: "length us = max 1 n" using u by (rule uniforms_length)
  then have ne: "us \<noteq> []" by auto
  show ?thesis
  proof (cases swr)
    case True
    have "generate_gpas L rnd n gpa_min gpa_max seed mean std swr g = (Inl ValueError, g1)"
      using \<open>allowed_gpas rnd gpa_min gpa_max = []\<close> True u ne
      by (simp add: generate_gpas_def Let_def level_probs_Nil choices_def del: uniforms.simps)
    with res show ?thesis by simp
  next
    case False
    show ?thesis
    proof (cases n)
      case 0
      have "generate_gpas L rnd n gpa_min gpa_max seed mean std swr g = (Inr [], g1)"
        using \<open>allowed_gpas rnd gpa_min gpa_max = []\<close> False u 0
        by (simp add: generate_gpas_def Let_def level_probs_Nil del: uniforms.simps)
      with res show ?thesis by simp
    next
      case (Suc k)
      obtain r g2 where r: "random_float L g1 = (r, g2)" by (cases "random_float L g1")
      have wp: "weighted_pop [] r = - 1" by (simp add: weighted_pop_def)
      have p2: "list_pop ([]::real list) (- 1) = None" by (simp add: list_pop_def)
      have pl: "pop_loop L (Suc k) us [] [] g1 = (Inl IndexError, g2)"
        by (cases "list_pop us (- 1)") (auto simp: r wp p2)
      have "max 1 n = Suc k" using Suc by simp
      then have "generate_gpas L rnd n gpa_min gpa_max seed mean std swr g = (Inl IndexError, g2)"
        using \<open>allowed_gpas rnd gpa_min gpa_max = []\<close> False u len Suc pl
        by (simp add: generate_gpas_def Let_def level_probs_Nil
              del: uniforms.simps pop_loop.simps)
      with res show ?thesis by simp
    qed
  qed
next
  case False
  let ?grid = "allowed_gpas rnd gpa_min gpa_max"
  let ?g0 = "case seed of None \<Rightarrow> g | Some s \<Rightarrow> seed_sampler L s"
  let ?lp = "level_probs L ?grid
             (case mean of None \<Rightarrow> (gpa_min + gpa_max) / 2 | Some m \<Rightarrow> m)
             (case std of None \<Rightarrow> (gpa_max - gpa_min) / 6 | Some s \<Rightarrow> s)"
  from res obtain probs where lp: "?lp = Inr probs"
    by (cases ?lp) (simp_all add: generate_gpas_def Let_def)
  show ?thesis
  proof (cases swr)
    case True
    with res lp False have "choices L ?grid probs n ?g0 = (Inr gpas, g')"
      by (simp add: generate_gpas_def Let_def)
    then show ?thesis using ok by (rule choices_subset[rotated])
  next
    case nr: False
    let ?pl = "pop_loop L (min n (length ?grid)) ?grid probs [] ?g0"
    have eq: "generate_gpas L rnd n gpa_min gpa_max seed mean std swr g =
      (case ?pl of
         (Inl e, g2) \<Rightarrow> (Inl e, g2)
       | (Inr gpas, g2) \<Rightarrow>
           if length gpas < n then
             (case choices L ?grid probs (n - length gpas) g2 of
                (Inl e, g3) \<Rightarrow> (Inl e, g3)
              | (Inr extras, g3) \<Rightarrow> (Inr (gpas @ extras), g3))
           else (Inr gpas, g2))"
      using lp False nr by (simp add: generate_gpas_def Let_def)
    obtain res1 g2 where pl: "?pl = (res1, g2)" by (cases ?pl)
    show ?thesis
    proof (cases res1)
      case (Inl e)
      with res eq pl show ?thesis by simp
    next
      case (Inr first)
      have sub: "set first \<subseteq> set ?grid"
        using pop_loop_subset[OF pl[unfolded Inr]] by simp
      show ?thesis
      proof (cases "length first < n")
        case False
        with res eq pl Inr have "gpas = first" by simp
        with sub show ?thesis by simp
      next
        case True
        obtain res2 g3 where ch: "choices L ?grid probs (n - length first) g2 = (res2, g3)"
          by (cases "choices L ?grid probs (n - length first) g2")
        show ?thesis
        proof (cases res2)
          case (Inl e)
          with res eq pl Inr True ch show ?thesis by simp
        next
          case (Inr extras)
          have "set extras \<subseteq> set ?grid"
            using choices_subset[OF ok ch[unfolded Inr]] .
          moreover from res eq pl \<open>res1 = Inr first\<close> True ch Inr have "gpas = first @ extras"
            by simp
          ultimately show ?thesis using sub by auto
        qed
      qed
    qed
  qed
qed

lemma scores_on_twice_rounded_grid:
  assumes ok: "choices_ok L"
    and res: "generate_scores L rnd n gpa_min gpa_max seed mean std swr g = Inr scores"
    and s: "s \<in> set scores"
  shows "\<exists>i<64. s = rnd (rnd (gpa_min + real i * ((gpa_max - gpa_min) / 63)) 6) 3
           \<and> gpa_min \<le> rnd (gpa_min + real i * ((gpa_max - gpa_min) / 63)) 6
           \<and> rnd (gpa_min + real i * ((gpa_max - gpa_min) / 63)) 6 \<le> gpa_max"
proof -
  obtain r g' where gg: "generate_gpas L rnd n gpa_min gpa_max seed mean std swr g = (r, g')"
    by (cases "generate_gpas L rnd n gpa_min gpa_max seed mean std swr g")
  from res gg obtain gpas where r: "r = Inr gpas"
    and sc: "scores = map (\<lambda>x. rnd x 3) (take n gpas)"
    by (cases r) (auto simp: generate_scores_def split: if_splits)
  from s sc obtain x where x: "x \<in> set (take n gpas)" "s = rnd x 3" by auto
  then have "x \<in> set gpas" by (meson in_set_takeD)
  with generate_gpas_on_grid[OF ok gg[unfolded r]]
  have "x \<in> set (allowed_gpas rnd gpa_min gpa_max)" by blast
  then obtain i where "i < 64" "x = rnd (gpa_min + real i * ((gpa_max - gpa_min) / 63)) 6"
    "gpa_min \<le> x" "x \<le> gpa_max"
    by (auto simp: allowed_gpas_def Let_def)
  with x(2) show ?thesis by blast
qed

section \<open>The grid of the range from 0 to 0.0944999748, evaluated\<close>

lemmas upt_numeral = upt_rec[of _ "numeral n" for n]

lemma round_tie: "decimal_round (15 / 10000) 3 = 2 / 1000"
  by (simp add: decimal_round_def Let_def)

lemma lcg_sampler_density: "\<forall>x mu sigma. \<exists>p. density lcg_sampler x mu sigma = Inr p"
  by (simp add: lcg_sampler_def)

lemma grid_off_length: "length (allowed_gpas decimal_round 0 (944999748 / 10 ^ 10)) = 63"
  by (simp add: allowed_gpas_def Let_def upt_numeral decimal_round_def)

lemma grid_off_member: "15 / 10000 \<in> set (allowed_gpas decimal_round 0 (944999748 / 10 ^ 10))"
  by (simp add: allowed_gpas_def Let_def upt_numeral decimal_round_def)

lemma test_grid_off_member: "2 / 1000 \<notin> set (test_grid decimal_round 0 (944999748 / 10 ^ 10))"
  by (simp add: test_grid_def Let_def upt_numeral decimal_round_def)

section \<open>The claims\<close>

text \<open>
  In the theorems below a run is a call of \<open>allocation_steps\<close> that returned the list
  \<open>snaps\<close>; \<open>rng_ok R\<close> is the contract of the generator and \<open>sort_ok R\<close> that of
  the sort, and \<open>caps_before (heap w ! capacity_dict) snaps k\<close> are the capacities the
  student of snapshot \<open>k\<close> finds.
\<close>

subsection \<open>C1: the first preference with a free seat\<close>

text \<open>
  Claim C1, in two parts. First, for the student of every snapshot \<open>k\<close>: when the
  effective preference list is \<open>xs @ c # ys\<close>, no category of \<open>xs\<close> has a free seat (its
  capacity is at most 0, or it is not a key of the capacity map, which \<open>dict_get\<close> reads
  as 0) and \<open>c\<close> has one, then the student is assigned \<open>c\<close>, the capacity of \<open>c\<close> goes
  down by exactly 1, every other capacity is as before, and the preferences \<open>ys\<close> after
  \<open>c\<close> play no part. The run has returned, so skipping an unknown category raised
  nothing (by the lemma \<open>run_returns\<close> every call on a population with the columns
  \<^verbatim>\<open>id\<close> and \<^verbatim>\<open>gpa\<close> returns). The snapshot is that of the \<open>k\<close>-th row the sort
  returned, and its preference list is the one the code reads from that row.

  Second, for a population of two students \<open>r1\<close> and \<open>r2\<close>, given in either order, of
  which \<open>r1\<close> has the higher score, both with the preference list \<open>[a, b]\<close> and with
  one seat in each of \<open>a\<close> and \<open>b\<close>: when the sort keeps its contract, the first
  snapshot is that of \<open>r1\<close>, assigned \<open>a\<close>, and the second that of \<open>r2\<close>, assigned
  \<open>b\<close>. The witness runs the population of test_gpa_priority_allocation with the
  student of the lower score first, and a student whose first preference has no capacity
  entry.
\<close>

theorem first_preference_with_space_is_chosen:
  assumes run: "allocation_steps R df capacity_dict max_prefs random_fallback seed w = Return snaps w'"
  shows "(k < length snaps
          \<and> prefs (snaps ! k) = xs @ c # ys
          \<and> (\<forall>p\<in>set xs. dict_get (caps_before (heap w ! capacity_dict) snaps k) p 0 \<le> 0)
          \<and> 0 < dict_get (caps_before (heap w ! capacity_dict) snaps k) c 0
          \<longrightarrow>
            chosen (snaps ! k) = Some c
          \<and> remaining (snaps ! k) = decr (caps_before (heap w ! capacity_dict) snaps k) c
          \<and> dict_get (remaining (snaps ! k)) c 0
              = dict_get (caps_before (heap w ! capacity_dict) snaps k) c 0 - 1
          \<and> (\<forall>c'. c' \<noteq> c \<longrightarrow> dict_get (remaining (snaps ! k)) c' 0
                                  = dict_get (caps_before (heap w ! capacity_dict) snaps k) c' 0)
          \<and> (\<forall>p. p \<notin> fst ` set (caps_before (heap w ! capacity_dict) snaps k)
                  \<longrightarrow> dict_get (caps_before (heap w ! capacity_dict) snaps k) p 0 = 0)
          \<and> student_id (snaps ! k) = row_id (sort_values R (rows df) ! k)
          \<and> prefs (snaps ! k)
              = row_prefs (pref_cols R (columns df) max_prefs) (sort_values R (rows df) ! k))
       \<and> (sort_ok R
          \<and> (rows df = [r1, r2] \<or> rows df = [r2, r1])
          \<and> row_gpa r2 < row_gpa r1
          \<and> row_prefs (pref_cols R (columns df) max_prefs) r1 = [a, b]
          \<and> row_prefs (pref_cols R (columns df) max_prefs) r2 = [a, b]
          \<and> a \<noteq> b
          \<and> dict_get (heap w ! capacity_dict) a 0 = 1
          \<and> dict_get (heap w ! capacity_dict) b 0 = 1
          \<longrightarrow>
            map (\<lambda>s. (student_id s, gpa s, chosen s)) snaps
              = [(row_id r1, row_gpa r1, Some a), (row_id r2, row_gpa r2, Some b)])"
proof -
  let ?rs = "sort_values R (rows df)"
  let ?pcs = "pref_cols R (columns df) max_prefs"
  let ?before = "caps_before (heap w ! capacity_dict) snaps k"
  have tr: "snaps = trace R random_fallback ?pcs ?rs (heap w ! capacity_dict)
              (case seed of None \<Rightarrow> rng w | Some s \<Rightarrow> seed_state R s) []"
    using run by (rule run_is_trace)
  have first:
    "chosen (snaps ! k) = Some c
     \<and> remaining (snaps ! k) = decr ?before c
     \<and> dict_get (remaining (snaps ! k)) c 0 = dict_get ?before c 0 - 1
     \<and> (\<forall>c'. c' \<noteq> c \<longrightarrow> dict_get (remaining (snaps ! k)) c' 0 = dict_get ?before c' 0)
     \<and> (\<forall>p. p \<notin> fst ` set ?before \<longrightarrow> dict_get ?before p 0 = 0)
     \<and> student_id (snaps ! k) = row_id (?rs ! k)
     \<and> prefs (snaps ! k) = row_prefs ?pcs (?rs ! k)"
    if k: "k < length snaps"
      and list: "prefs (snaps ! k) = xs @ c # ys"
      and full: "\<forall>p\<in>set xs. dict_get ?before p 0 \<le> 0"
      and free: "0 < dict_get ?before c 0"
  proof -
    have k': "k < length ?rs" using k by (subst (asm) tr) (simp add: trace_length)
    have row: "student_id (snaps ! k) = row_id (?rs ! k)"
      "prefs (snaps ! k) = row_prefs ?pcs (?rs ! k)"
      by (subst tr, rule trace_row_nth[OF k'])+
    obtain g0 g1 where st:
      "step R random_fallback (row_prefs ?pcs (?rs ! k)) ?before g0
         = (chosen (snaps ! k), remaining (snaps ! k), g1)"
      using trace_nth[OF k', of R random_fallback ?pcs "heap w ! capacity_dict" _ "[]"] tr
      by metis
    have "step R random_fallback (row_prefs ?pcs (?rs ! k)) ?before g0
            = (Some c, decr ?before c, g0)"
      using list full free row(2) by (intro step_primary) auto
    with st have ch: "chosen (snaps ! k) = Some c"
      and rem: "remaining (snaps ! k) = decr ?before c"
      by simp_all
    show ?thesis
      using ch rem row by (simp add: dict_get_decr_same dict_get_decr_other dict_get_absent)
  qed
  have second:
    "map (\<lambda>s. (student_id s, gpa s, chosen s)) snaps
       = [(row_id r1, row_gpa r1, Some a), (row_id r2, row_gpa r2, Some b)]"
    if srt: "sort_ok R"
      and two: "rows df = [r1, r2] \<or> rows df = [r2, r1]"
      and score: "row_gpa r2 < row_gpa r1"
      and ps: "row_prefs ?pcs r1 = [a, b]" "row_prefs ?pcs r2 = [a, b]"
      and ab: "a \<noteq> b"
      and caps: "dict_get (heap w ! capacity_dict) a 0 = 1"
        "dict_get (heap w ! capacity_dict) b 0 = 1"
  proof -
    have sorted: "?rs = [r1, r2]" using srt two score by (rule sort_ok_two)
    have tr2: "snaps = trace R random_fallback ?pcs [r1, r2] (heap w ! capacity_dict)
              (case seed of None \<Rightarrow> rng w | Some s \<Rightarrow> seed_state R s) []"
      using tr unfolding sorted .
    have ch: "map (\<lambda>s. (student_id s, chosen s)) snaps = [(row_id r1, Some a), (row_id r2, Some b)]"
      by (subst tr2) (rule trace_two_students[OF ps ab caps])
    have rw: "map (\<lambda>s. (student_id s, gpa s, prefs s)) snaps
                = map (\<lambda>r. (row_id r, row_gpa r, row_prefs ?pcs r)) [r1, r2]"
      by (subst tr2) (rule trace_rows)
    from rw obtain s1 s2 where snaps: "snaps = [s1, s2]"
      by (cases snaps; cases "tl snaps"; cases "tl (tl snaps)") auto
    from ch rw show ?thesis unfolding snaps by simp
  qed
  from first second show ?thesis by blast
qed

theorem first_preference_with_space_is_chosen_witness:
  "allocation_steps lcg df_priority_reversed 0 2 False None world_priority
     = Return snaps_priority
         (world_priority\<lparr>heap := heap world_priority @ [[(''Software'', 0), (''Mechanical'', 0)]]\<rparr>)
   \<and> (1::nat) < length snaps_priority
   \<and> prefs (snaps_priority ! 1) = [''Software''] @ ''Mechanical'' # []
   \<and> dict_get (caps_before (heap world_priority ! 0) snaps_priority 1) ''Software'' 0 \<le> 0
   \<and> 0 < dict_get (caps_before (heap world_priority ! 0) snaps_priority 1) ''Mechanical'' 0
   \<and> chosen (snaps_priority ! 1) = Some ''Mechanical''
   \<and> dict_get (remaining (snaps_priority ! 1)) ''Mechanical'' 0 = 0
   \<and> sort_ok lcg
   \<and> map (\<lambda>r. (row_id r, row_gpa r)) (rows df_priority_reversed) = [(2, 8), (1, 9)]
   \<and> map (\<lambda>s. (student_id s, gpa s, chosen s)) snaps_priority
       = [(1, 9, Some ''Software''), (2, 8, Some ''Mechanical'')]
   \<and> allocation_steps lcg df_unknown_pref 0 5 True None world_same_id
     = Return snaps_unknown_pref
         (world_same_id\<lparr>heap := heap world_same_id @ [[(''Software'', 0)]]\<rparr>)
   \<and> prefs (snaps_unknown_pref ! 0) = [''Astrology''] @ ''Software'' # []
   \<and> ''Astrology'' \<notin> fst ` set (caps_before (heap world_same_id ! 0) snaps_unknown_pref 0)
   \<and> chosen (snaps_unknown_pref ! 0) = Some ''Software''"
proof -
  let ?before = "caps_before (heap world_priority ! 0) snaps_priority 1"
  let ?r1 = "mk_row 1 (9::real) [(''pref1'', ''Software''), (''pref2'', ''Mechanical'')]"
  let ?r2 = "mk_row 2 (8::real) [(''pref1'', ''Software''), (''pref2'', ''Mechanical'')]"
  have k: "(1::nat) < length snaps_priority" by (simp add: snaps_priority_def)
  have l: "prefs (snaps_priority ! 1) = [''Software''] @ ''Mechanical'' # []"
    by (simp add: snaps_priority_def)
  have before: "?before = [(''Software'', 0), (''Mechanical'', 1)]"
    by (simp add: caps_before_def snaps_priority_def)
  have sw: "dict_get ?before ''Software'' 0 \<le> 0"
    unfolding before by (simp add: dict_get_def)
  have me: "dict_get ?before ''Mechanical'' 0 = 1"
    unfolding before by (simp add: dict_get_def)
  have full: "\<forall>p\<in>set [''Software'']. dict_get ?before p 0 \<le> 0"
    using sw by simp
  have free: "0 < dict_get ?before ''Mechanical'' 0"
    using me by simp
  have two: "rows df_priority_reversed = [?r1, ?r2] \<or> rows df_priority_reversed = [?r2, ?r1]"
    by (simp add: df_priority_reversed_def)
  have score: "row_gpa ?r2 < row_gpa ?r1" by (simp add: mk_row_def)
  have pcs: "pref_cols lcg (columns df_priority_reversed) 2 = [''pref1'', ''pref2'']"
    by (simp add: df_priority_reversed_def pref_cols_two)
  have ps1: "row_prefs (pref_cols lcg (columns df_priority_reversed) 2) ?r1
               = [''Software'', ''Mechanical'']"
    unfolding pcs by (simp add: row_prefs_def List.map_filter_def mk_row_def)
  have ps2: "row_prefs (pref_cols lcg (columns df_priority_reversed) 2) ?r2
               = [''Software'', ''Mechanical'']"
    unfolding pcs by (simp add: row_prefs_def List.map_filter_def mk_row_def)
  have ab: "''Software'' \<noteq> ''Mechanical''" by simp
  have caps: "dict_get (heap world_priority ! 0) ''Software'' 0 = 1"
    "dict_get (heap world_priority ! 0) ''Mechanical'' 0 = 1"
    by (simp_all add: world_priority_def dict_get_def)
  note th = first_preference_with_space_is_chosen[OF run_priority_reversed,
              where k = 1 and xs = "[''Software'']" and c = "''Mechanical''" and ys = "[]"
                and ?r1.0 = ?r1 and ?r2.0 = ?r2 and a = "''Software''" and b = "''Mechanical''"]
  note th1 = th[THEN conjunct1, THEN mp, OF conjI[OF k conjI[OF l conjI[OF full free]]]]
  note th2 = th[THEN conjunct2, THEN mp,
                OF conjI[OF lcg_sort_ok conjI[OF two conjI[OF score conjI[OF ps1 conjI[OF ps2
                     conjI[OF ab conjI[OF caps]]]]]]]]
  have ch: "chosen (snaps_priority ! 1) = Some ''Mechanical''"
    using th1 by (elim conjE)
  have "dict_get (remaining (snaps_priority ! 1)) ''Mechanical'' 0 = dict_get ?before ''Mechanical'' 0 - 1"
    using th1 by (elim conjE)
  then have rem: "dict_get (remaining (snaps_priority ! 1)) ''Mechanical'' 0 = 0"
    by (simp only: me)
  have given: "map (\<lambda>r. (row_id r, row_gpa r)) (rows df_priority_reversed) = [(2, 8), (1, 9)]"
    by (simp add: df_priority_reversed_def mk_row_def)
  have order: "map (\<lambda>s. (student_id s, gpa s, chosen s)) snaps_priority
       = [(1, 9, Some ''Software''), (2, 8, Some ''Mechanical'')]"
    using th2 by (simp add: mk_row_def)
  let ?found = "caps_before (heap world_same_id ! 0) snaps_unknown_pref 0"
  have k0: "(0::nat) < length snaps_unknown_pref" by (simp add: snaps_unknown_pref_def)
  have l0: "prefs (snaps_unknown_pref ! 0) = [''Astrology''] @ ''Software'' # []"
    by (simp add: snaps_unknown_pref_def)
  have found: "?found = [(''Software'', 1)]"
    by (simp add: caps_before_def world_same_id_def)
  have absent: "''Astrology'' \<notin> fst ` set ?found"
    unfolding found by simp
  have full0: "\<forall>p\<in>set [''Astrology'']. dict_get ?found p 0 \<le> 0"
    unfolding found by (simp add: dict_get_def)
  have free0: "0 < dict_get ?found ''Software'' 0"
    unfolding found by (simp add: dict_get_def)
  note th0 = first_preference_with_space_is_chosen[OF run_unknown_pref,
               where k = 0 and xs = "[''Astrology'']" and c = "''Software''" and ys = "[]",
               THEN conjunct1, THEN mp, OF conjI[OF k0 conjI[OF l0 conjI[OF full0 free0]]]]
  have ch0: "chosen (snaps_unknown_pref ! 0) = Some ''Software''"
    using th0 by (elim conjE)
  from run_priority_reversed k l sw free ch rem lcg_sort_ok given order
    run_unknown_pref l0 absent ch0
  show ?thesis
    by (intro conjI)
qed

subsection \<open>C2: the fallback\<close>

text \<open>
  Claim C2. For the student of every snapshot \<open>k\<close> let \<open>av\<close> be the list the code
  builds for the fallback: it holds, once each, exactly the categories with capacity
  above 0 that the student did not list. When none of the effective preferences has a
  free seat: if the fallback is enabled and \<open>av\<close> is not empty, the student is assigned
  the element of \<open>av\<close> at the index the generator draws below \<open>length av\<close> (so a
  uniform draw of the index is a uniform choice among the candidates), and that category
  loses exactly one seat; otherwise the student is recorded with no category and the
  capacities recorded are those found. And whatever the preferences: with the fallback
  enabled and \<open>av\<close> not empty the student is not left unassigned.
\<close>

theorem fallback_outside_preferences:
  assumes run: "allocation_steps R df capacity_dict max_prefs random_fallback seed w = Return snaps w'"
    and rng: "rng_ok R"
    and keys: "distinct (map fst (heap w ! capacity_dict))"
    and k: "k < length snaps"
    and av: "av = available_specs (caps_before (heap w ! capacity_dict) snaps k) (prefs (snaps ! k))"
  shows "set av = {c. 0 < dict_get (caps_before (heap w ! capacity_dict) snaps k) c 0
                      \<and> c \<notin> set (prefs (snaps ! k))}
       \<and> distinct av
       \<and> ((\<forall>p\<in>set (prefs (snaps ! k)).
              dict_get (caps_before (heap w ! capacity_dict) snaps k) p 0 \<le> 0) \<longrightarrow>
            (random_fallback \<and> av \<noteq> [] \<longrightarrow>
              (\<exists>c. chosen (snaps ! k) = Some c \<and> c \<in> set av
                \<and> (\<exists>g. c = av ! fst (randbelow R g (length av)))
                \<and> remaining (snaps ! k) = decr (caps_before (heap w ! capacity_dict) snaps k) c
                \<and> dict_get (remaining (snaps ! k)) c 0
                    = dict_get (caps_before (heap w ! capacity_dict) snaps k) c 0 - 1
                \<and> (\<forall>c'. c' \<noteq> c \<longrightarrow> dict_get (remaining (snaps ! k)) c' 0
                      = dict_get (caps_before (heap w ! capacity_dict) snaps k) c' 0)))
          \<and> (\<not> (random_fallback \<and> av \<noteq> []) \<longrightarrow>
                chosen (snaps ! k) = None
              \<and> remaining (snaps ! k) = caps_before (heap w ! capacity_dict) snaps k))
       \<and> (random_fallback \<and> av \<noteq> [] \<longrightarrow> chosen (snaps ! k) \<noteq> None)"
proof -
  let ?rs = "sort_values R (rows df)"
  let ?pcs = "pref_cols R (columns df) max_prefs"
  let ?before = "caps_before (heap w ! capacity_dict) snaps k"
  let ?full = "\<forall>p\<in>set (prefs (snaps ! k)). dict_get ?before p 0 \<le> 0"
  let ?drawn = "\<exists>c. chosen (snaps ! k) = Some c \<and> c \<in> set av
            \<and> (\<exists>g. c = av ! fst (randbelow R g (length av)))
            \<and> remaining (snaps ! k) = decr ?before c
            \<and> dict_get (remaining (snaps ! k)) c 0 = dict_get ?before c 0 - 1
            \<and> (\<forall>c'. c' \<noteq> c \<longrightarrow> dict_get (remaining (snaps ! k)) c' 0 = dict_get ?before c' 0)"
  let ?none = "chosen (snaps ! k) = None \<and> remaining (snaps ! k) = ?before"
  have tr: "snaps = trace R random_fallback ?pcs ?rs (heap w ! capacity_dict)
              (case seed of None \<Rightarrow> rng w | Some s \<Rightarrow> seed_state R s) []"
    using run by (rule run_is_trace)
  have k': "k < length ?rs" using k by (subst (asm) tr) (simp add: trace_length)
  have row: "prefs (snaps ! k) = row_prefs ?pcs (?rs ! k)"
    by (subst tr, rule trace_row_nth[OF k'])
  obtain g0 g1 where st:
    "step R random_fallback (prefs (snaps ! k)) ?before g0
       = (chosen (snaps ! k), remaining (snaps ! k), g1)"
    using trace_nth[OF k', of R random_fallback ?pcs "heap w ! capacity_dict" _ "[]"] tr row
    by metis
  have dist: "distinct (map fst ?before)"
    using trace_before_distinct[OF keys, of k ?rs R random_fallback ?pcs _ "[]"] k' tr by simp
  have set_av: "set av = {c. 0 < dict_get ?before c 0 \<and> c \<notin> set (prefs (snaps ! k))}"
    unfolding av using dist by (rule available_specs_set)
  have dist_av: "distinct av"
    unfolding av using dist by (rule available_specs_distinct)
  have drawn: ?drawn if full: ?full and yes: "random_fallback \<and> av \<noteq> []"
  proof -
    have eq: "step R random_fallback (prefs (snaps ! k)) ?before g0 =
       (case randbelow R g0 (length av) of
          (i, g') \<Rightarrow> (Some (av ! i), decr ?before (av ! i), g'))"
      using step_no_pref[OF full, of R random_fallback g0] yes av by simp
    obtain i g' where draw: "randbelow R g0 (length av) = (i, g')"
      by (cases "randbelow R g0 (length av)")
    have i: "i < length av"
      using rng yes draw by (auto simp: rng_ok_def dest!: spec[of _ g0] spec[of _ "length av"])
    from eq st draw
    have ch: "chosen (snaps ! k) = Some (av ! i)" and rem: "remaining (snaps ! k) = decr ?before (av ! i)"
      by auto
    have "av ! i = av ! fst (randbelow R g0 (length av))" using draw by simp
    then have ex: "\<exists>g. av ! i = av ! fst (randbelow R g (length av))" by blast
    show ?thesis
      using ch rem i ex
      by (intro exI[of _ "av ! i"]) (simp add: dict_get_decr_same dict_get_decr_other)
  qed
  have none: ?none if full: ?full and no: "\<not> (random_fallback \<and> av \<noteq> [])"
  proof -
    have "step R random_fallback (prefs (snaps ! k)) ?before g0 = (None, ?before, g0)"
      using step_no_pref[OF full, of R random_fallback g0] no av by auto
    with st show ?thesis by simp
  qed
  have assigned: "chosen (snaps ! k) \<noteq> None" if yes: "random_fallback \<and> av \<noteq> []"
  proof (cases ?full)
    case True
    from drawn[OF True yes] show ?thesis by auto
  next
    case False
    then obtain p where "p \<in> set (prefs (snaps ! k))" "0 < dict_get ?before p 0"
      by (auto simp: not_le)
    then have "find (\<lambda>p. 0 < dict_get ?before p 0) (prefs (snaps ! k)) \<noteq> None"
      by (auto simp: find_None_iff)
    then obtain c where "find (\<lambda>p. 0 < dict_get ?before p 0) (prefs (snaps ! k)) = Some c"
      by auto
    then have "step R random_fallback (prefs (snaps ! k)) ?before g0 = (Some c, decr ?before c, g0)"
      by (simp add: step_def)
    with st have "chosen (snaps ! k) = Some c" by simp
    then show ?thesis by simp
  qed
  from set_av dist_av drawn none assigned show ?thesis by blast
qed

theorem fallback_outside_preferences_witness:
  "allocation_steps lcg df_fallback 0 2 True (Some 42) world_fallback
     = Return snaps_fallback
         \<lparr>heap = heap world_fallback
                   @ [[(''Software'', 0), (''Mechanical'', 0), (''Engineering Science'', 0)]],
          rng = 1250496027\<rparr>
   \<and> rng_ok lcg
   \<and> distinct (map fst (heap world_fallback ! 0))
   \<and> (2::nat) < length snaps_fallback
   \<and> dict_get (caps_before (heap world_fallback ! 0) snaps_fallback 2) ''Software'' 0 \<le> 0
   \<and> dict_get (caps_before (heap world_fallback ! 0) snaps_fallback 2) ''Mechanical'' 0 \<le> 0
   \<and> [''Engineering Science'']
        = available_specs (caps_before (heap world_fallback ! 0) snaps_fallback 2)
            (prefs (snaps_fallback ! 2))
   \<and> chosen (snaps_fallback ! 2) = Some ''Engineering Science''
   \<and> dict_get (remaining (snaps_fallback ! 2)) ''Engineering Science'' 0 = 0"
proof -
  let ?before = "caps_before (heap world_fallback ! 0) snaps_fallback 2"
  have keys: "distinct (map fst (heap world_fallback ! 0))" by (simp add: world_fallback_def)
  have k: "(2::nat) < length snaps_fallback" by (simp add: snaps_fallback_def)
  have before: "?before = [(''Software'', 0), (''Mechanical'', 0), (''Engineering Science'', 1)]"
    by (simp add: caps_before_def snaps_fallback_def)
  have ps: "prefs (snaps_fallback ! 2) = [''Software'', ''Mechanical'']"
    by (simp add: snaps_fallback_def)
  have sw: "dict_get ?before ''Software'' 0 \<le> 0"
    unfolding before by (simp add: dict_get_def)
  have me: "dict_get ?before ''Mechanical'' 0 \<le> 0"
    unfolding before by (simp add: dict_get_def)
  have es: "dict_get ?before ''Engineering Science'' 0 = 1"
    unfolding before by (simp add: dict_get_def)
  have full: "\<forall>p\<in>set (prefs (snaps_fallback ! 2)). dict_get ?before p 0 \<le> 0"
    unfolding ps using sw me by simp
  have av: "[''Engineering Science''] = available_specs ?before (prefs (snaps_fallback ! 2))"
    unfolding before ps by (simp add: available_specs_def)
  note th = fallback_outside_preferences[OF run_fallback lcg_ok keys k av]
  have "(\<forall>p\<in>set (prefs (snaps_fallback ! 2)). dict_get ?before p 0 \<le> 0) \<longrightarrow>
        (True \<and> [''Engineering Science''] \<noteq> [] \<longrightarrow>
          (\<exists>c. chosen (snaps_fallback ! 2) = Some c \<and> c \<in> set [''Engineering Science'']
              \<and> (\<exists>g. c = [''Engineering Science''] ! fst (randbelow lcg g (length [''Engineering Science''])))
              \<and> remaining (snaps_fallback ! 2) = decr ?before c
              \<and> dict_get (remaining (snaps_fallback ! 2)) c 0 = dict_get ?before c 0 - 1
              \<and> (\<forall>c'. c' \<noteq> c \<longrightarrow> dict_get (remaining (snaps_fallback ! 2)) c' 0
                      = dict_get ?before c' 0)))"
    using th by blast
  with full obtain c where c: "chosen (snaps_fallback ! 2) = Some c" "c \<in> set [''Engineering Science'']"
      "dict_get (remaining (snaps_fallback ! 2)) c 0 = dict_get ?before c 0 - 1"
    by blast
  from c(2) have ce: "c = ''Engineering Science''" by simp
  have ch: "chosen (snaps_fallback ! 2) = Some ''Engineering Science''"
    using c(1) unfolding ce .
  have rem: "dict_get (remaining (snaps_fallback ! 2)) ''Engineering Science'' 0 = 0"
    using c(3) unfolding ce es by simp
  from run_fallback lcg_ok keys k sw me av ch rem show ?thesis
    by (intro conjI)
qed

subsection \<open>C3: one snapshot per student, in descending score order\<close>

text \<open>
  Claim C3, as amended. For an input with the columns \<^verbatim>\<open>id\<close> and \<^verbatim>\<open>gpa\<close> the call
  returns; there are as many snapshots as rows; snapshot \<open>k\<close> is that of the \<open>k\<close>-th
  row the sort returned; the snapshots carry the ids and scores of the input rows, each as
  often as the input has it, and their scores never increase. When the ids are pairwise
  distinct, the assignment map of the last snapshot has exactly one entry per student, in
  processing order. The witness is a population given with the lower score first.
\<close>

theorem one_snapshot_per_student_in_score_order:
  assumes rng: "rng_ok R"
    and srt: "sort_ok R"
    and cols: "''id'' \<in> set (columns df)" "''gpa'' \<in> set (columns df)"
  shows "\<exists>snaps w'.
           allocation_steps R df capacity_dict max_prefs random_fallback seed w = Return snaps w'
         \<and> length snaps = length (rows df)
         \<and> map (\<lambda>s. (student_id s, gpa s)) snaps
             = map (\<lambda>r. (row_id r, row_gpa r)) (sort_values R (rows df))
         \<and> mset (map (\<lambda>s. (student_id s, gpa s)) snaps)
             = mset (map (\<lambda>r. (row_id r, row_gpa r)) (rows df))
         \<and> sorted_wrt (\<lambda>a b. b \<le> a) (map gpa snaps)
         \<and> (distinct (map row_id (rows df)) \<and> rows df \<noteq> [] \<longrightarrow>
               map fst (assignments (last snaps)) = map student_id snaps
             \<and> distinct (map fst (assignments (last snaps)))
             \<and> mset (map fst (assignments (last snaps))) = mset (map row_id (rows df)))"
proof -
  let ?rs = "sort_values R (rows df)"
  let ?tr = "trace R random_fallback (pref_cols R (columns df) max_prefs) ?rs
               (heap w ! capacity_dict)
               (case seed of None \<Rightarrow> rng w | Some s \<Rightarrow> seed_state R s) []"
  obtain w' where run:
    "allocation_steps R df capacity_dict max_prefs random_fallback seed w = Return ?tr w'"
    using run_returns[OF rng cols] by blast
  have len: "length ?tr = length (rows df)"
    by (simp add: trace_length sort_ok_length[OF srt])
  have "map (\<lambda>(a, b, c). (a, b)) (map (\<lambda>s. (student_id s, gpa s, prefs s)) ?tr)
      = map (\<lambda>(a, b, c). (a, b))
          (map (\<lambda>r. (row_id r, row_gpa r, row_prefs (pref_cols R (columns df) max_prefs) r)) ?rs)"
    by (simp only: trace_rows)
  then have rows_eq:
    "map (\<lambda>s. (student_id s, gpa s)) ?tr = map (\<lambda>r. (row_id r, row_gpa r)) ?rs"
    by (simp add: comp_def)
  have "map snd (map (\<lambda>s. (student_id s, gpa s)) ?tr) = map snd (map (\<lambda>r. (row_id r, row_gpa r)) ?rs)"
    by (simp only: rows_eq)
  then have gpas: "map gpa ?tr = map row_gpa ?rs" by (simp add: comp_def)
  have "map fst (map (\<lambda>s. (student_id s, gpa s)) ?tr) = map fst (map (\<lambda>r. (row_id r, row_gpa r)) ?rs)"
    by (simp only: rows_eq)
  then have sids: "map student_id ?tr = map row_id ?rs" by (simp add: comp_def)
  have sorted: "sorted_wrt (\<lambda>a b. b \<le> a) (map gpa ?tr)"
    unfolding gpas using srt by (rule sort_ok_sorted)
  have perm: "mset ?rs = mset (rows df)" using srt by (rule sort_ok_mset)
  have same: "mset (map (\<lambda>s. (student_id s, gpa s)) ?tr)
                = mset (map (\<lambda>r. (row_id r, row_gpa r)) (rows df))"
    unfolding rows_eq using perm by (metis mset_map)
  have mids: "mset (map row_id ?rs) = mset (map row_id (rows df))"
    using srt by (rule sort_ok_ids)
  have final: "distinct (map row_id (rows df)) \<and> rows df \<noteq> [] \<longrightarrow>
                 map fst (assignments (last ?tr)) = map student_id ?tr
               \<and> distinct (map fst (assignments (last ?tr)))
               \<and> mset (map fst (assignments (last ?tr))) = mset (map row_id (rows df))"
  proof
    assume a: "distinct (map row_id (rows df)) \<and> rows df \<noteq> []"
    then have dids: "distinct (map row_id ?rs)"
      using sort_ok_distinct_ids[OF srt] by blast
    from a have "?rs \<noteq> []" using sort_ok_length[OF srt, of "rows df"] by auto
    then have "map fst (assignments (last ?tr)) = map student_id ?tr"
      by (simp add: trace_last_assignments[OF dids] comp_def)
    then show "map fst (assignments (last ?tr)) = map student_id ?tr
               \<and> distinct (map fst (assignments (last ?tr)))
               \<and> mset (map fst (assignments (last ?tr))) = mset (map row_id (rows df))"
      using sids dids mids by simp
  qed
  from run len rows_eq same sorted final show ?thesis by blast
qed

theorem one_snapshot_per_student_in_score_order_witness:
  "rng_ok lcg
   \<and> sort_ok lcg
   \<and> ''id'' \<in> set (columns df_priority_reversed) \<and> ''gpa'' \<in> set (columns df_priority_reversed)
   \<and> distinct (map row_id (rows df_priority_reversed))
   \<and> rows df_priority_reversed \<noteq> []
   \<and> map (\<lambda>r. (row_id r, row_gpa r)) (rows df_priority_reversed) = [(2, 8), (1, 9)]
   \<and> (\<exists>snaps w'.
         allocation_steps lcg df_priority_reversed 0 2 False None world_priority = Return snaps w'
         \<and> length snaps = 2
         \<and> map (\<lambda>s. (student_id s, gpa s)) snaps = [(1, 9), (2, 8)]
         \<and> sorted_wrt (\<lambda>a b. b \<le> a) (map gpa snaps)
         \<and> map fst (assignments (last snaps)) = [1, 2])"
proof -
  have cols: "''id'' \<in> set (columns df_priority_reversed)"
    "''gpa'' \<in> set (columns df_priority_reversed)"
    by (simp_all add: df_priority_reversed_def)
  have ids: "distinct (map row_id (rows df_priority_reversed))"
    by (simp add: df_priority_reversed_def mk_row_def)
  have ne: "rows df_priority_reversed \<noteq> []" by (simp add: df_priority_reversed_def)
  have given: "map (\<lambda>r. (row_id r, row_gpa r)) (rows df_priority_reversed) = [(2, 8), (1, 9)]"
    by (simp add: df_priority_reversed_def mk_row_def)
  have srt: "map (\<lambda>r. (row_id r, row_gpa r)) (sort_values lcg (rows df_priority_reversed))
               = [(1, 9), (2, 8)]"
    by (simp add: df_priority_reversed_def mk_row_def lcg_def sort_desc_stable_def)
  from one_snapshot_per_student_in_score_order[OF lcg_ok lcg_sort_ok cols,
         of 0 2 False None world_priority]
  obtain snaps w' where
    run: "allocation_steps lcg df_priority_reversed 0 2 False None world_priority = Return snaps w'"
    and len: "length snaps = length (rows df_priority_reversed)"
    and rows: "map (\<lambda>s. (student_id s, gpa s)) snaps
                 = map (\<lambda>r. (row_id r, row_gpa r)) (sort_values lcg (rows df_priority_reversed))"
    and sorted: "sorted_wrt (\<lambda>a b. b \<le> a) (map gpa snaps)"
    and final: "map fst (assignments (last snaps)) = map student_id snaps"
    using ids ne by blast
  have pairs: "map (\<lambda>s. (student_id s, gpa s)) snaps = [(1, 9), (2, 8)]"
    using rows srt by simp
  then have "map fst (map (\<lambda>s. (student_id s, gpa s)) snaps) = map fst [(1, 9), (2, 8::real)]"
    by simp
  then have sid: "map student_id snaps = [1, 2]" by (simp add: comp_def)
  have "length snaps = 2" using len by (simp add: df_priority_reversed_def)
  with run pairs sid sorted final have
    "\<exists>snaps w'.
         allocation_steps lcg df_priority_reversed 0 2 False None world_priority = Return snaps w'
         \<and> length snaps = 2
         \<and> map (\<lambda>s. (student_id s, gpa s)) snaps = [(1, 9), (2, 8)]
         \<and> sorted_wrt (\<lambda>a b. b \<le> a) (map gpa snaps)
         \<and> map fst (assignments (last snaps)) = [1, 2]"
    by auto
  with lcg_ok lcg_sort_ok cols ids ne given show ?thesis by simp
qed

text \<open>
  Without distinct ids the last part of the claim fails: the assignment map is keyed by
  id, so for two records with id 1 there are two rows and two snapshots, and the
  assignment map of the last snapshot has one entry.
\<close>

theorem one_entry_for_two_students_with_shared_id:
  "returned (allocation_steps lcg df_same_id 0 5 False None world_same_id) = Inr snaps_same_id
   \<and> ''id'' \<in> set (columns df_same_id) \<and> ''gpa'' \<in> set (columns df_same_id)
   \<and> length (rows df_same_id) = 2
   \<and> length snaps_same_id = 2
   \<and> length (assignments (last snaps_same_id)) = 1"
proof -
  have a: "returned (allocation_steps lcg df_same_id 0 5 False None world_same_id) = Inr snaps_same_id"
    by (simp only: run_same_id returned_def result.case)
  have b: "''id'' \<in> set (columns df_same_id)" "''gpa'' \<in> set (columns df_same_id)"
    "length (rows df_same_id) = 2"
    by (simp_all add: df_same_id_def)
  have c: "length snaps_same_id = 2" "length (assignments (last snaps_same_id)) = 1"
    by (simp_all add: snaps_same_id_def)
  from a b c show ?thesis by (intro conjI)
qed

subsection \<open>C4: capacity conservation\<close>

text \<open>
  Claim C4, as amended. For a run on a population with pairwise distinct ids and every
  category \<open>c\<close>: the initial capacity of \<open>c\<close> minus the capacity the last snapshot
  records equals the number of entries of the last snapshot's assignment map whose
  category is \<open>c\<close>. The rows processed are those the sort returned: its contract makes
  them the rows of the population.
\<close>

theorem capacity_conservation_distinct_ids:
  assumes run: "allocation_steps R df capacity_dict max_prefs random_fallback seed w = Return snaps w'"
    and ids: "distinct (map row_id (rows df))"
    and srt: "sort_ok R"
    and ne: "snaps \<noteq> []"
  shows "dict_get (heap w ! capacity_dict) c 0 - dict_get (remaining (last snaps)) c 0
           = int (assigned_count (assignments (last snaps)) c)"
proof -
  let ?rs = "sort_values R (rows df)"
  have tr: "snaps = trace R random_fallback (pref_cols R (columns df) max_prefs) ?rs
              (heap w ! capacity_dict)
              (case seed of None \<Rightarrow> rng w | Some s \<Rightarrow> seed_state R s) []"
    using run by (rule run_is_trace)
  have rs: "?rs \<noteq> []" using ne tr by auto
  have dids: "distinct (map row_id ?rs)"
    using srt ids by (rule sort_ok_distinct_ids)
  have asg: "assignments (last snaps) = map (\<lambda>s. (student_id s, chosen s)) snaps"
    unfolding tr by (rule trace_last_assignments[OF dids rs])
  have cnt: "assigned_count (assignments (last snaps)) c
               = length (filter (\<lambda>s. chosen s = Some c) snaps)"
    unfolding asg assigned_count_def by (simp add: filter_map comp_def)
  have "dict_get (remaining (last snaps)) c 0
          = dict_get (heap w ! capacity_dict) c 0
              - int (length (filter (\<lambda>s. chosen s = Some c) snaps))"
    unfolding tr by (rule trace_conservation[OF rs])
  with cnt show ?thesis by simp
qed

theorem capacity_conservation_distinct_ids_witness:
  "allocation_steps lcg df_fallback 0 2 True (Some 42) world_fallback
     = Return snaps_fallback
         \<lparr>heap = heap world_fallback
                   @ [[(''Software'', 0), (''Mechanical'', 0), (''Engineering Science'', 0)]],
          rng = 1250496027\<rparr>
   \<and> distinct (map row_id (rows df_fallback))
   \<and> sort_ok lcg
   \<and> snaps_fallback \<noteq> []
   \<and> dict_get (heap world_fallback ! 0) ''Engineering Science'' 0
       - dict_get (remaining (last snaps_fallback)) ''Engineering Science'' 0
       = int (assigned_count (assignments (last snaps_fallback)) ''Engineering Science'')
   \<and> assigned_count (assignments (last snaps_fallback)) ''Engineering Science'' = 1"
proof -
  have ids: "distinct (map row_id (rows df_fallback))"
    by (simp add: df_fallback_def mk_row_def)
  have ne: "snaps_fallback \<noteq> []" by (simp add: snaps_fallback_def)
  have one: "assigned_count (assignments (last snaps_fallback)) ''Engineering Science'' = 1"
    by (simp add: snaps_fallback_def assigned_count_def)
  note th = capacity_conservation_distinct_ids[OF run_fallback ids lcg_sort_ok ne,
              of "''Engineering Science''"]
  from run_fallback ids lcg_sort_ok ne th one show ?thesis
    by (intro conjI)
qed

text \<open>
  Without distinct ids the claim fails: the assignment map is keyed by id, so the second
  of two records with id 1 overwrites the entry of the first. Here the first takes the
  only Software seat and the second stays unassigned: one seat is used, and the final map
  assigns Software to nobody.
\<close>

theorem capacity_conservation_fails_for_shared_id:
  "returned (allocation_steps lcg df_same_id 0 5 False None world_same_id) = Inr snaps_same_id
   \<and> dict_get (heap world_same_id ! 0) ''Software'' 0
       - dict_get (remaining (last snaps_same_id)) ''Software'' 0 = 1
   \<and> assigned_count (assignments (last snaps_same_id)) ''Software'' = 0"
proof -
  have a: "returned (allocation_steps lcg df_same_id 0 5 False None world_same_id) = Inr snaps_same_id"
    by (simp only: run_same_id returned_def result.case)
  have b: "dict_get (heap world_same_id ! 0) ''Software'' 0
             - dict_get (remaining (last snaps_same_id)) ''Software'' 0 = 1"
    by (simp add: world_same_id_def snaps_same_id_def dict_get_def)
  have c: "assigned_count (assignments (last snaps_same_id)) ''Software'' = 0"
    by (simp add: snaps_same_id_def assigned_count_def)
  from a b c show ?thesis by (intro conjI)
qed

subsection \<open>C5: the assignment map grows\<close>

text \<open>
  Claim C5, as amended. For a run on a population with pairwise distinct ids and
  snapshots \<open>i < j\<close>: the keys of the assignment map of snapshot \<open>i\<close> are keys of that
  of snapshot \<open>j\<close> and keep their values (the first map is contained in the second);
  snapshot \<open>k\<close> has \<open>k + 1\<close> entries, and the map of a snapshot is that of the snapshot
  before it with one entry added at the end, for the student just processed. The rows
  processed are those the sort returned: its contract makes them the rows of the
  population.
\<close>

theorem assignment_map_grows_distinct_ids:
  assumes run: "allocation_steps R df capacity_dict max_prefs random_fallback seed w = Return snaps w'"
    and ids: "distinct (map row_id (rows df))"
    and srt: "sort_ok R"
    and ij: "i < j" "j < length snaps"
  shows "fst ` set (assignments (snaps ! i)) \<subseteq> fst ` set (assignments (snaps ! j))
       \<and> map_of (assignments (snaps ! i)) \<subseteq>\<^sub>m map_of (assignments (snaps ! j))
       \<and> length (assignments (snaps ! i)) = Suc i
       \<and> length (assignments (snaps ! j)) = Suc j
       \<and> assignments (snaps ! j)
           = assignments (snaps ! (j - 1)) @ [(student_id (snaps ! j), chosen (snaps ! j))]"
proof -
  let ?rs = "sort_values R (rows df)"
  let ?f = "\<lambda>s. (student_id s, chosen s)"
  have tr: "snaps = trace R random_fallback (pref_cols R (columns df) max_prefs) ?rs
              (heap w ! capacity_dict)
              (case seed of None \<Rightarrow> rng w | Some s \<Rightarrow> seed_state R s) []"
    using run by (rule run_is_trace)
  have len: "length snaps = length ?rs" by (subst tr) (rule trace_length)
  have dids: "distinct (map row_id ?rs)"
    using srt ids by (rule sort_ok_distinct_ids)
  have at: "assignments (snaps ! k) = map ?f (take (Suc k) snaps)" if "k < length snaps" for k
  proof -
    have "assignments (snaps ! k) = [] @ map ?f (take (Suc k) snaps)"
      using that len dids by (subst (1 2) tr) (intro trace_assignments_fresh, auto)
    then show ?thesis by simp
  qed
  have i: "i < length snaps" and j1: "j - 1 < length snaps" using ij by simp_all
  have Ai: "assignments (snaps ! i) = map ?f (take (Suc i) snaps)" by (rule at[OF i])
  have Aj: "assignments (snaps ! j) = map ?f (take (Suc j) snaps)" by (rule at[OF ij(2)])
  have Aj1: "assignments (snaps ! (j - 1)) = map ?f (take j snaps)"
    using at[OF j1] ij(1) by simp
  have split: "take (Suc j) snaps = take (Suc i) snaps @ drop (Suc i) (take (Suc j) snaps)"
    using ij by (metis Suc_leI append_take_drop_id min.absorb1 take_take Suc_le_mono less_imp_le_nat)
  have app: "assignments (snaps ! j)
               = assignments (snaps ! i) @ map ?f (drop (Suc i) (take (Suc j) snaps))"
    unfolding Ai Aj by (subst split) simp
  have keys: "fst ` set (assignments (snaps ! i)) \<subseteq> fst ` set (assignments (snaps ! j))"
    unfolding app by auto
  have le: "map_of (assignments (snaps ! i)) \<subseteq>\<^sub>m map_of (assignments (snaps ! j))"
    unfolding app by simp
  have li: "length (assignments (snaps ! i)) = Suc i" unfolding Ai using i by simp
  have lj: "length (assignments (snaps ! j)) = Suc j" unfolding Aj using ij(2) by simp
  have step: "assignments (snaps ! j)
                = assignments (snaps ! (j - 1)) @ [(student_id (snaps ! j), chosen (snaps ! j))]"
    unfolding Aj Aj1 using ij(2) by (simp add: take_Suc_conv_app_nth)
  from keys le li lj step show ?thesis by blast
qed

theorem assignment_map_grows_distinct_ids_witness:
  "allocation_steps lcg df_fallback 0 2 True (Some 42) world_fallback
     = Return snaps_fallback
         \<lparr>heap = heap world_fallback
                   @ [[(''Software'', 0), (''Mechanical'', 0), (''Engineering Science'', 0)]],
          rng = 1250496027\<rparr>
   \<and> distinct (map row_id (rows df_fallback))
   \<and> sort_ok lcg
   \<and> (0::nat) < 2 \<and> (2::nat) < length snaps_fallback
   \<and> map_of (assignments (snaps_fallback ! 0)) \<subseteq>\<^sub>m map_of (assignments (snaps_fallback ! 2))
   \<and> length (assignments (snaps_fallback ! 0)) = 1
   \<and> length (assignments (snaps_fallback ! 2)) = 3
   \<and> assignments (snaps_fallback ! 2)
       = assignments (snaps_fallback ! (2 - 1))
           @ [(student_id (snaps_fallback ! 2), chosen (snaps_fallback ! 2))]"
proof -
  have ids: "distinct (map row_id (rows df_fallback))"
    by (simp add: df_fallback_def mk_row_def)
  have ij: "(0::nat) < 2" "(2::nat) < length snaps_fallback" by (simp_all add: snaps_fallback_def)
  note th = assignment_map_grows_distinct_ids[OF run_fallback ids lcg_sort_ok ij]
  have le: "map_of (assignments (snaps_fallback ! 0)) \<subseteq>\<^sub>m map_of (assignments (snaps_fallback ! 2))"
    using th by (elim conjE)
  have "length (assignments (snaps_fallback ! 0)) = Suc 0" using th by (elim conjE)
  then have l0: "length (assignments (snaps_fallback ! 0)) = 1" by (simp only: One_nat_def)
  have "length (assignments (snaps_fallback ! 2)) = Suc 2" using th by (elim conjE)
  then have l2: "length (assignments (snaps_fallback ! 2)) = 3" by (simp only: eval_nat_numeral)
  have st: "assignments (snaps_fallback ! 2)
       = assignments (snaps_fallback ! (2 - 1))
           @ [(student_id (snaps_fallback ! 2), chosen (snaps_fallback ! 2))]"
    using th by (elim conjE)
  from run_fallback ids lcg_sort_ok ij le l0 l2 st show ?thesis
    by (intro conjI)
qed

text \<open>
  Without distinct ids the claim fails: for two records with id 1 the second step adds no
  entry, and the value of key 1 changes from Software to none.
\<close>

theorem assignment_value_changes_for_shared_id:
  "returned (allocation_steps lcg df_same_id 0 5 False None world_same_id) = Inr snaps_same_id
   \<and> map_of (assignments (snaps_same_id ! 0)) 1 = Some (Some ''Software'')
   \<and> map_of (assignments (snaps_same_id ! 1)) 1 = Some None
   \<and> length (assignments (snaps_same_id ! 1)) = length (assignments (snaps_same_id ! 0))"
proof -
  have a: "returned (allocation_steps lcg df_same_id 0 5 False None world_same_id) = Inr snaps_same_id"
    by (simp only: run_same_id returned_def result.case)
  have b: "map_of (assignments (snaps_same_id ! 0)) 1 = Some (Some ''Software'')"
    by (simp add: snaps_same_id_def)
  have c: "map_of (assignments (snaps_same_id ! 1)) 1 = Some None"
    by (simp add: snaps_same_id_def)
  have d: "length (assignments (snaps_same_id ! 1)) = length (assignments (snaps_same_id ! 0))"
    by (simp add: snaps_same_id_def)
  from a b c d show ?thesis by (intro conjI)
qed

subsection \<open>C6: determinism under an explicit seed\<close>

text \<open>
  Claim C6. Two calls with the same population, capacity dicts of equal content (at any
  addresses, in any two worlds, whatever state the generator is in), the same
  \<^verbatim>\<open>max_prefs\<close> and fallback flag and the same explicit seed return the same list of
  snapshots, or raise the same exception, and leave the generator in the same state.
\<close>

theorem same_seed_same_snapshots:
  assumes rng: "rng_ok R"
    and same: "heap w1 ! cd1 = heap w2 ! cd2"
  shows "returned (allocation_steps R df cd1 max_prefs random_fallback (Some s) w1)
           = returned (allocation_steps R df cd2 max_prefs random_fallback (Some s) w2)
       \<and> rng (world_of (allocation_steps R df cd1 max_prefs random_fallback (Some s) w1))
           = rng (world_of (allocation_steps R df cd2 max_prefs random_fallback (Some s) w2))"
proof (cases "''id'' \<notin> set (columns df) \<or> ''gpa'' \<notin> set (columns df)")
  case True
  then show ?thesis
    by (simp add: allocation_steps_missing returned_def world_of_def)
next
  case False
  then have cols: "''id'' \<in> set (columns df)" "''gpa'' \<in> set (columns df)" by auto
  show ?thesis
    unfolding allocation_steps_eq[OF rng cols] same
    by (simp add: returned_def world_of_def split: prod.splits)
qed

theorem same_seed_same_snapshots_witness:
  "rng_ok lcg
   \<and> heap world_fallback ! 0 = heap world_fallback_other ! 1
   \<and> rng world_fallback \<noteq> rng world_fallback_other
   \<and> returned (allocation_steps lcg df_fallback 1 2 True (Some 42) world_fallback_other)
       = Inr snaps_fallback"
proof -
  have same: "heap world_fallback ! 0 = heap world_fallback_other ! 1"
    by (simp add: world_fallback_def world_fallback_other_def)
  have diff: "rng world_fallback \<noteq> rng world_fallback_other"
    by (simp add: world_fallback_def world_fallback_other_def)
  have r: "returned (allocation_steps lcg df_fallback 0 2 True (Some 42) world_fallback)
             = Inr snaps_fallback"
    by (simp only: run_fallback returned_def result.case)
  from same_seed_same_snapshots[OF lcg_ok same, of df_fallback 2 True 42]
  have "returned (allocation_steps lcg df_fallback 0 2 True (Some 42) world_fallback)
          = returned (allocation_steps lcg df_fallback 1 2 True (Some 42) world_fallback_other)"
    by (elim conjE)
  with r have o: "returned (allocation_steps lcg df_fallback 1 2 True (Some 42) world_fallback_other)
                    = Inr snaps_fallback"
    by (simp only:)
  from lcg_ok same diff o show ?thesis by (intro conjI)
qed

subsection \<open>C7: a missing id or gpa column\<close>

text \<open>
  Claim C7. The call raises if and only if the column \<^verbatim>\<open>id\<close> or the column
  \<^verbatim>\<open>gpa\<close> is missing. The exception is then the \<^verbatim>\<open>ValueError\<close> of line 220 (the
  specification's MissingRequiredFieldError); no snapshot is returned, no object of the
  store is changed and no working copy has been made: the world differs from the one
  before the call only in the generator, which line 216 has seeded already.
\<close>

theorem missing_id_or_gpa_raises:
  assumes rng: "rng_ok R"
  shows "((\<exists>e w'. allocation_steps R df capacity_dict max_prefs random_fallback seed w = Raise e w')
            \<longleftrightarrow> (''id'' \<notin> set (columns df) \<or> ''gpa'' \<notin> set (columns df)))
       \<and> ((''id'' \<notin> set (columns df) \<or> ''gpa'' \<notin> set (columns df)) \<longrightarrow>
            allocation_steps R df capacity_dict max_prefs random_fallback seed w
              = Raise ValueError (case seed of None \<Rightarrow> w | Some s \<Rightarrow> w\<lparr>rng := seed_state R s\<rparr>))
       \<and> (\<forall>e w'. allocation_steps R df capacity_dict max_prefs random_fallback seed w = Raise e w'
              \<longrightarrow> e = ValueError \<and> heap w' = heap w)"
proof (cases "''id'' \<notin> set (columns df) \<or> ''gpa'' \<notin> set (columns df)")
  case True
  then show ?thesis
    by (cases seed) (simp_all add: allocation_steps_missing)
next
  case False
  then have cols: "''id'' \<in> set (columns df)" "''gpa'' \<in> set (columns df)" by auto
  from run_returns[OF rng cols, of capacity_dict max_prefs random_fallback seed w]
  obtain snaps w1 where
    "allocation_steps R df capacity_dict max_prefs random_fallback seed w = Return snaps w1"
    by blast
  with False show ?thesis by simp
qed

theorem missing_id_or_gpa_raises_witness:
  "rng_ok lcg
   \<and> ''gpa'' \<notin> set (columns df_no_gpa)
   \<and> allocation_steps lcg df_no_gpa 0 5 True (Some 42) world_priority
       = Raise ValueError (world_priority\<lparr>rng := 42\<rparr>)
   \<and> ''id'' \<in> set (columns df_priority) \<and> ''gpa'' \<in> set (columns df_priority)
   \<and> (\<nexists>e w'. allocation_steps lcg df_priority 0 2 False None world_priority = Raise e w')"
proof -
  have no: "''gpa'' \<notin> set (columns df_no_gpa)" by (simp add: df_no_gpa_def)
  have yes: "''id'' \<in> set (columns df_priority)" "''gpa'' \<in> set (columns df_priority)"
    by (simp_all add: df_priority_def)
  from missing_id_or_gpa_raises[OF lcg_ok, of df_no_gpa 0 5 True "Some 42" world_priority] no
  have a: "allocation_steps lcg df_no_gpa 0 5 True (Some 42) world_priority
             = Raise ValueError (world_priority\<lparr>rng := 42\<rparr>)"
    by (simp add: lcg_def)
  from missing_id_or_gpa_raises[OF lcg_ok, of df_priority 0 2 False None world_priority] yes
  have b: "\<nexists>e w'. allocation_steps lcg df_priority 0 2 False None world_priority = Raise e w'"
    by simp
  from lcg_ok no a yes b show ?thesis by simp
qed

subsection \<open>C8: the scores and the grid\<close>

text \<open>
  Claim C8: every score the sampler produces is one of the 64 levels
  \<^verbatim>\<open>gpa_min + i * (gpa_max - gpa_min) / 63\<close> rounded to 3 decimals, and the grid is
  these 64 levels. That is what the comments of lines 37-43 announce and what
  tests/test_grid_alignment.py expects (\<open>test_grid\<close>). The code rounds every level to 6
  decimals first, drops a rounded level that lies outside the range, and rounds what it
  draws to 3 decimals: by the lemma \<open>scores_on_twice_rounded_grid\<close> a score is a level
  rounded twice. The theorem is about a range where this departs from the claim: with
  \<^verbatim>\<open>gpa_min = 0\<close> and \<^verbatim>\<open>gpa_max = 0.0944999748\<close> the step is 0.0014999996; level 63
  rounds to 0.0945, above \<^verbatim>\<open>gpa_max\<close>, so the grid has 63 levels; level 1 rounds to
  0.0015 and that to 0.002, while the level itself rounds to 0.001 and no level rounds to
  0.002. Drawing 63 scores without replacement takes every level of the grid once,
  whatever the generator draws, so 0.002 is among the scores of every call that returns.
  Rounding is that of exact decimals, ties to the even digit; \<^verbatim>\<open>round\<close> of Python
  gives the same results on the numbers involved.
\<close>

theorem stored_score_off_the_test_grid:
  assumes "generate_scores L decimal_round 63 0 (944999748 / 10 ^ 10) seed mean std False g
             = Inr scores"
  shows "length (allowed_gpas decimal_round 0 (944999748 / 10 ^ 10)) = 63
       \<and> 15 / 10000 \<in> set (allowed_gpas decimal_round 0 (944999748 / 10 ^ 10))
       \<and> decimal_round (15 / 10000) 3 = 2 / 1000
       \<and> 2 / 1000 \<in> set scores
       \<and> 2 / 1000 \<notin> set (test_grid decimal_round 0 (944999748 / 10 ^ 10))"
proof -
  let ?grid = "allowed_gpas decimal_round 0 (944999748 / 10 ^ 10)"
  have ne: "?grid \<noteq> []" using grid_off_length by auto
  have "mset scores = mset (map (\<lambda>x. decimal_round x 3) ?grid)"
    using assms grid_off_length[symmetric] ne by (rule generate_scores_all_levels)
  then have "set scores = (\<lambda>x. decimal_round x 3) ` set ?grid"
    by (metis set_mset_mset set_map)
  with grid_off_member have "decimal_round (15 / 10000) 3 \<in> set scores" by blast
  then have "2 / 1000 \<in> set scores" by (simp only: round_tie)
  with grid_off_length grid_off_member round_tie test_grid_off_member show ?thesis
    by (intro conjI)
qed

theorem stored_score_off_the_test_grid_witness:
  "(\<exists>scores. generate_scores lcg_sampler decimal_round 63 0 (944999748 / 10 ^ 10)
                (Some 42) None None False 7 = Inr scores
            \<and> 2 / 1000 \<in> set scores)
   \<and> 2 / 1000 \<notin> set (test_grid decimal_round 0 (944999748 / 10 ^ 10))"
proof -
  have ne: "allowed_gpas decimal_round 0 (944999748 / 10 ^ 10) \<noteq> []"
    using grid_off_length by auto
  from generate_scores_returns[OF lcg_sampler_density grid_off_length[symmetric] ne,
         of "Some 42" None None 7]
  obtain scores where run: "generate_scores lcg_sampler decimal_round 63 0 (944999748 / 10 ^ 10)
                (Some 42) None None False 7 = Inr scores"
    by blast
  note th = stored_score_off_the_test_grid[OF run]
  have a: "2 / 1000 \<in> set scores" using th by (elim conjE)
  have b: "2 / 1000 \<notin> set (test_grid decimal_round 0 (944999748 / 10 ^ 10))"
    using th by (elim conjE)
  from run a have "\<exists>scores. generate_scores lcg_sampler decimal_round 63 0 (944999748 / 10 ^ 10)
                (Some 42) None None False 7 = Inr scores \<and> 2 / 1000 \<in> set scores"
    by blast
  with b show ?thesis by (intro conjI)
qed

subsection \<open>C9: the recovery from a density that sums to zero\<close>

text \<open>
  Claim C9: when the Gaussian density over the score grid sums to zero or less, the
  sampler substitutes uniform weights and goes on without an exception, with weights
  that are not negative and sum to 1. The theorem is about the input where the code
  departs from this. When \<^verbatim>\<open>gpa_max\<close> is below
  \<^verbatim>\<open>gpa_min\<close> no level passes the range test of line 44, whatever the rounding: the
  grid is empty, the density is evaluated at no level and sums to 0, and the uniform
  weights substituted for it are the empty list, which does not sum to 1. Line 74 then
  replaces the empty grid by draws from the continuous range but keeps the empty weights,
  so drawing with replacement raises a \<^verbatim>\<open>ValueError\<close> in \<^verbatim>\<open>random.choices\<close>, and
  drawing without replacement, for at least one student, raises an \<^verbatim>\<open>IndexError\<close> in
  \<^verbatim>\<open>choice_probs.pop\<close>. For a grid that is not empty the lemmas
  \<open>probs_of_uniform\<close> and \<open>level_probs_degenerate_std\<close> give the recovery the claim
  describes, in exact arithmetic.
\<close>

theorem empty_grid_sampling_raises:
  assumes "gpa_max < gpa_min"
  shows "allowed_gpas rnd gpa_min gpa_max = []
       \<and> level_weights L (allowed_gpas rnd gpa_min gpa_max) m s = Inr []
       \<and> level_probs L (allowed_gpas rnd gpa_min gpa_max) m s = Inr []
       \<and> (\<forall>ps. level_probs L (allowed_gpas rnd gpa_min gpa_max) m s = Inr ps \<longrightarrow> sum_list ps \<noteq> 1)
       \<and> fst (generate_gpas L rnd n gpa_min gpa_max seed mean std True g) = Inl ValueError
       \<and> fst (generate_gpas L rnd (Suc n) gpa_min gpa_max seed mean std False g) = Inl IndexError"
proof -
  have grid: "allowed_gpas rnd gpa_min gpa_max = []"
    using assms by (rule allowed_gpas_empty)
  have probs: "level_probs L [] m' s' = Inr []" for m' s'
    by (rule level_probs_Nil)
  have wr: "fst (generate_gpas L rnd n gpa_min gpa_max seed mean std True g) = Inl ValueError"
  proof -
    obtain us g1 where u: "uniforms L rnd (max (Suc 0) n) gpa_min gpa_max
        (case seed of None \<Rightarrow> g | Some s \<Rightarrow> seed_sampler L s) = (us, g1)"
      by (cases "uniforms L rnd (max (Suc 0) n) gpa_min gpa_max
        (case seed of None \<Rightarrow> g | Some s \<Rightarrow> seed_sampler L s)")
    have "length us = max (Suc 0) n"
      using u by (rule uniforms_length)
    then have "us \<noteq> []" by auto
    then show ?thesis
      by (simp add: generate_gpas_def grid probs u choices_def Let_def)
  qed
  have wo: "fst (generate_gpas L rnd (Suc n) gpa_min gpa_max seed mean std False g) = Inl IndexError"
  proof -
    obtain us g1 where u: "uniforms L rnd (Suc n) gpa_min gpa_max
        (case seed of None \<Rightarrow> g | Some s \<Rightarrow> seed_sampler L s) = (us, g1)"
      by (cases "uniforms L rnd (Suc n) gpa_min gpa_max
        (case seed of None \<Rightarrow> g | Some s \<Rightarrow> seed_sampler L s)")
    have len: "length us = Suc n"
      using u by (rule uniforms_length)
    obtain r g2 where r: "random_float L g1 = (r, g2)" by (cases "random_float L g1")
    have wp: "weighted_pop [] r = - 1" by (simp add: weighted_pop_def)
    have p1: "list_pop us (- 1) \<noteq> None" using len by (simp add: list_pop_def Let_def)
    have p2: "list_pop ([]::real list) (- 1) = None" by (simp add: list_pop_def)
    from p1 obtain x cs' where p1': "list_pop us (- 1) = Some (x, cs')"
      by (cases "list_pop us (- 1)") auto
    have pl: "pop_loop L (Suc n) us [] [] g1 = (Inl IndexError, g2)"
      by (simp add: r wp p1' p2)
    show ?thesis
      using len
      by (simp add: generate_gpas_def grid probs u Let_def pl del: uniforms.simps pop_loop.simps)
  qed
  have weights: "level_weights L [] m s = Inr []" by simp
  have sum: "\<forall>ps. level_probs L [] m s = Inr ps \<longrightarrow> sum_list ps \<noteq> 1"
    by (simp add: probs)
  from grid probs weights sum wr wo show ?thesis by simp
qed

theorem empty_grid_sampling_raises_witness:
  "(4::real) < 9
   \<and> allowed_gpas decimal_round 9 4 = []
   \<and> level_probs lcg_sampler (allowed_gpas decimal_round 9 4) (13 / 2) (- 5 / 6) = Inr []
   \<and> fst (generate_gpas lcg_sampler decimal_round 5 9 4 (Some 42) None None True 7) = Inl ValueError
   \<and> fst (generate_gpas lcg_sampler decimal_round 5 9 4 (Some 42) None None False 7) = Inl IndexError"
proof -
  have lt: "(4::real) < 9" by simp
  note th5 = empty_grid_sampling_raises[OF lt, where rnd = decimal_round and m = "13 / 2"
               and s = "- 5 / 6" and L = lcg_sampler and n = 5 and seed = "Some 42"
               and mean = None and std = None and g = 7]
  note th4 = empty_grid_sampling_raises[OF lt, where rnd = decimal_round and m = "13 / 2"
               and s = "- 5 / 6" and L = lcg_sampler and n = 4 and seed = "Some 42"
               and mean = None and std = None and g = 7]
  have a: "allowed_gpas decimal_round 9 4 = []" using th5 by (elim conjE)
  have b: "level_probs lcg_sampler (allowed_gpas decimal_round 9 4) (13 / 2) (- 5 / 6) = Inr []"
    using th5 by (elim conjE)
  have c: "fst (generate_gpas lcg_sampler decimal_round 5 9 4 (Some 42) None None True 7) = Inl ValueError"
    using th5 by (elim conjE)
  have "fst (generate_gpas lcg_sampler decimal_round (Suc 4) 9 4 (Some 42) None None False 7) = Inl IndexError"
    using th4 by (elim conjE)
  moreover have "Suc 4 = 5" by simp
  ultimately have d: "fst (generate_gpas lcg_sampler decimal_round 5 9 4 (Some 42) None None False 7) = Inl IndexError"
    by (simp only:)
  from lt a b c d show ?thesis by (intro conjI)
qed

subsection \<open>C10: the caller's capacity dict\<close>

text \<open>
  Claim C10. Whatever the input and whether the call returns or raises, the object at
  the address \<^verbatim>\<open>capacity_dict\<close> holds after the call what it held before, and so does
  every other object the store held: the decrements go to the copy made in line 226, a
  new object.
\<close>

theorem caller_capacity_dict_unchanged:
  assumes "capacity_dict < length (heap w)"
  shows "heap (world_of (allocation_steps R df capacity_dict max_prefs random_fallback seed w))
           ! capacity_dict = heap w ! capacity_dict
       \<and> take (length (heap w))
           (heap (world_of (allocation_steps R df capacity_dict max_prefs random_fallback seed w)))
           = heap w"
proof -
  let ?h = "heap (world_of (allocation_steps R df capacity_dict max_prefs random_fallback seed w))"
  have t: "take (length (heap w)) ?h = heap w" by (rule allocation_steps_frame)
  have "?h ! capacity_dict = take (length (heap w)) ?h ! capacity_dict"
    using assms by simp
  with t show ?thesis by simp
qed

theorem caller_capacity_dict_unchanged_witness:
  "(0::nat) < length (heap world_priority)
   \<and> heap (world_of (allocation_steps lcg df_priority 0 2 False None world_priority)) ! 0
       = [(''Software'', 1), (''Mechanical'', 1)]
   \<and> remaining (last snaps_priority) = [(''Software'', 0), (''Mechanical'', 0)]"
proof -
  have v: "(0::nat) < length (heap world_priority)" by (simp add: world_priority_def)
  have h: "heap world_priority ! 0 = [(''Software'', 1), (''Mechanical'', 1)]"
    by (simp add: world_priority_def)
  have r: "remaining (last snaps_priority) = [(''Software'', 0), (''Mechanical'', 0)]"
    by (simp add: snaps_priority_def)
  from caller_capacity_dict_unchanged[OF v, of lcg df_priority 2 False None]
  have "heap (world_of (allocation_steps lcg df_priority 0 2 False None world_priority)) ! 0
          = heap world_priority ! 0"
    by (elim conjE)
  then have u: "heap (world_of (allocation_steps lcg df_priority 0 2 False None world_priority)) ! 0
          = [(''Software'', 1), (''Mechanical'', 1)]"
    by (simp only: h)
  from v u r show ?thesis by (intro conjI)
qed

end
